theory Spec2Isabelle
  imports Main "HOL-Library.Sublist" "HOL-Library.AList"
begin

section \<open>Strings, JSON values and the output directory\<close>

text \<open>
  A Python \<open>str\<close> is a sequence of Unicode code points; \<open>len\<close> and slicing count code
  points. The model therefore takes a string to be a list of code points (natural
  numbers), so that \<open>length\<close> is Python's \<open>len\<close> and \<open>take 50\<close> is \<open>[:50]\<close> also on
  text outside ASCII.
\<close>

type_synonym ustr = "nat list"

definition py_str :: "string \<Rightarrow> ustr" where
  "py_str s = map of_char s"

text \<open>\<open>sub in s\<close> on strings is \<^const>\<open>sublist\<close>; \<open>s.endswith(suf)\<close> is \<^const>\<open>suffix\<close>.\<close>

definition endswith :: "ustr \<Rightarrow> ustr \<Rightarrow> bool" where
  "endswith s suf = suffix suf s"

text \<open>
  What \<open>json.load\<close> returns. The payload of a float is never inspected by the program
  and is left out.
\<close>

datatype json =
    JNull
  | JBool bool
  | JInt int
  | JFloat
  | JStr ustr
  | JArr "json list"
  | JObj "(ustr \<times> json) list"

datatype pyexc = OSError | ValueError | TypeError | KeyError

datatype 'a result = Return 'a | Raise pyexc

text \<open>
  A file of the output directory, seen through what reading it gives: \<open>Unreadable\<close>
  (\<open>open\<close> or the UTF-8 decoding raises), \<open>Text s\<close> (the text \<open>s\<close>), or \<open>Json v\<close>, a
  document written by \<open>json.dump v\<close>, from which \<open>json.load\<close> reads \<open>v\<close> back. The
  directory lists its entries in order; writing a name that exists replaces the entry.
\<close>

datatype content_of_file = Unreadable | Text ustr | Json json

type_synonym directory = "(ustr \<times> content_of_file) list"

text \<open>
  The collaborators outside the repository: the HTML parser (\<open>find_title m\<close> is the
  stripped text of \<open>soup.find('h2', class_='tt')\<close> on markup \<open>m\<close>, \<open>None\<close> when there is
  no such element; \<open>find_content\<close> likewise for \<open>div.view_p.mazmun\<close> with separator
  newline), the JSON decoder on arbitrary text (\<open>None\<close> when it raises), the clock
  (\<open>now_iso n\<close> is \<open>datetime.now().isoformat()\<close> as read while the \<open>n\<close>-th result is
  processed; \<open>final_stamp\<close> and \<open>final_iso\<close> are the two readings taken by
  \<open>save_final_dataset\<close>), and the file system's answer to creating a file:
  \<open>write_error name f\<close> is the exception that writing \<open>f\<close> under \<open>name\<close> raises, if any,
  and \<open>left_on_disk name f\<close> is what such a failed write leaves under \<open>name\<close> (\<open>None\<close> when
  \<open>open\<close> itself raised and nothing was touched, otherwise the truncated or partly
  written file).
\<close>

record env =
  find_title :: "ustr \<Rightarrow> ustr option"
  find_content :: "ustr \<Rightarrow> ustr option"
  json_loads :: "ustr \<Rightarrow> json option"
  now_iso :: "nat \<Rightarrow> ustr"
  final_stamp :: ustr
  final_iso :: ustr
  write_error :: "ustr \<Rightarrow> content_of_file \<Rightarrow> pyexc option"
  left_on_disk :: "ustr \<Rightarrow> content_of_file \<Rightarrow> content_of_file option"

section \<open>Records, page results and the state of a run\<close>

record article =
  url :: ustr
  title :: ustr
  content :: ustr
  crawl_time :: ustr
  content_length :: nat

record crawl_result =
  result_url :: ustr
  result_success :: bool
  result_html :: "ustr option"

text \<open>
  What the run prints. The start-up banner (lines 95 and 111 to 114 of \<open>sc.py\<close>) and the
  separator lines are left out; every line printed from the loop on is an event.
\<close>

datatype line =
    SavedProgress nat ustr
  | PageProgress nat nat nat
  | Summary nat nat nat
  | NoNewData
  | DatasetSaved "ustr option"

text \<open>
  The extractor object (\<open>dataset\<close>, \<open>visited_urls\<close>, the contents of \<open>output_dir\<close>), the
  counters of \<open>deep_crawl_nur\<close>, standard output, and a log of the arguments of every
  call of \<open>extract_content\<close> made from the loop. \<open>visited_urls\<close> is only ever asked about
  a \<open>str\<close>, so the model keeps its \<open>str\<close> members.
\<close>

record state =
  dataset :: "article list"
  visited_urls :: "ustr set"
  outdir :: directory
  result_count :: nat
  success_count :: nat
  skip_count :: nat
  stdout :: "line list"
  extract_calls :: "(ustr option \<times> ustr) list"

definition output_dir :: ustr where
  "output_dir = py_str ''nur_articles''"

definition init :: "directory \<Rightarrow> state" where
  "init d = \<lparr>dataset = [], visited_urls = {}, outdir = d, result_count = 0,
     success_count = 0, skip_count = 0, stdout = [], extract_calls = []\<rparr>"

section \<open>The extractor's methods\<close>

definition is_duplicate :: "ustr \<Rightarrow> state \<Rightarrow> bool \<times> state" where
  "is_duplicate u st =
     (if u \<in> visited_urls st then (True, st)
      else (False, st\<lparr>visited_urls := insert u (visited_urls st)\<rparr>))"

definition truthy :: "ustr option \<Rightarrow> bool" where
  "truthy h = (case h of None \<Rightarrow> False | Some m \<Rightarrow> m \<noteq> [])"

definition extracted_title :: "env \<Rightarrow> ustr \<Rightarrow> ustr" where
  "extracted_title E m = (case find_title E m of Some t \<Rightarrow> t | None \<Rightarrow> [])"

definition extracted_content :: "env \<Rightarrow> ustr \<Rightarrow> ustr" where
  "extracted_content E m = (case find_content E m of Some c \<Rightarrow> c | None \<Rightarrow> [])"

definition extract_content :: "env \<Rightarrow> ustr option \<Rightarrow> ustr \<Rightarrow> ustr \<Rightarrow> article option" where
  "extract_content E html_content u now =
     (case html_content of
        None \<Rightarrow> None
      | Some m \<Rightarrow>
          if m = [] then None
          else if extracted_title E m = [] \<and> extracted_content E m = [] then None
          else Some \<lparr>url = u, title = extracted_title E m, content = extracted_content E m,
                  crawl_time = now, content_length = length (extracted_content E m)\<rparr>)"

text \<open>
  \<open>save_single_txt\<close> and \<open>save_final_dataset\<close> ask \<open>write_error\<close> once for the whole
  file. When the write raises, \<open>open(..., 'w')\<close> may already have created or truncated
  the file: the directory then holds what \<open>left_on_disk\<close> says, and the exception ends
  the run.
\<close>

definition failed_write :: "env \<Rightarrow> ustr \<Rightarrow> content_of_file \<Rightarrow> directory \<Rightarrow> directory" where
  "failed_write E name f d =
     (case left_on_disk E name f of None \<Rightarrow> d | Some g \<Rightarrow> AList.update name g d)"

text \<open>The character class \<open>[<>:"/\\|?*]\<close>: the code points of \<open>< > : " / \ | ? *\<close>.\<close>

definition illegal :: "nat list" where
  "illegal = [60, 62, 58, 34, 47, 92, 124, 63, 42]"

definition safe_title :: "ustr \<Rightarrow> ustr" where
  "safe_title t = take 50 (map (\<lambda>c. if c \<in> set illegal then 95 else c) t)"

definition txt_body :: "article \<Rightarrow> content_of_file" where
  "txt_body data = Text (title data @ [10, 10] @ content data)"

definition save_single_txt :: "env \<Rightarrow> article \<Rightarrow> directory \<Rightarrow> ustr option result \<times> directory" where
  "save_single_txt E data d =
     (if title data = [] then (Return None, d)
      else let txt_filename = safe_title (title data) @ py_str ''.txt'' in
        (case write_error E txt_filename (txt_body data) of
           Some e \<Rightarrow> (Raise e, failed_write E txt_filename (txt_body data) d)
         | None \<Rightarrow> (Return (Some txt_filename), AList.update txt_filename (txt_body data) d)))"

subsection \<open>Seeding the ledger\<close>

definition json_load :: "env \<Rightarrow> content_of_file option \<Rightarrow> json result" where
  "json_load E f =
     (case f of
        None \<Rightarrow> Raise OSError
      | Some Unreadable \<Rightarrow> Raise OSError
      | Some (Text s) \<Rightarrow> (case json_loads E s of None \<Rightarrow> Raise ValueError | Some v \<Rightarrow> Return v)
      | Some (Json v) \<Rightarrow> Return v)"

text \<open>\<open>k in data\<close>, \<open>data[k]\<close> and \<open>for x in data\<close> for a string \<open>k\<close> and a decoded value.\<close>

fun py_in :: "ustr \<Rightarrow> json \<Rightarrow> bool result" where
  "py_in k (JObj kvs) = Return (map_of kvs k \<noteq> None)"
| "py_in k (JArr xs) = Return (JStr k \<in> set xs)"
| "py_in k (JStr s) = Return (sublist k s)"
| "py_in k _ = Raise TypeError"

fun py_getitem :: "json \<Rightarrow> ustr \<Rightarrow> json result" where
  "py_getitem (JObj kvs) k = (case map_of kvs k of None \<Rightarrow> Raise KeyError | Some v \<Rightarrow> Return v)"
| "py_getitem _ k = Raise TypeError"

fun py_iter :: "json \<Rightarrow> json list result" where
  "py_iter (JArr xs) = Return xs"
| "py_iter (JObj kvs) = Return (map (\<lambda>kv. JStr (fst kv)) kvs)"
| "py_iter (JStr s) = Return (map (\<lambda>c. JStr [c]) s)"
| "py_iter _ = Raise TypeError"

text \<open>
  \<open>visited_urls.add(v)\<close>: a list or a dict is unhashable; a number, a boolean or
  \<open>None\<close> is added, and is no \<open>str\<close>.
\<close>

fun set_add :: "json \<Rightarrow> ustr set \<Rightarrow> ustr set result" where
  "set_add (JStr u) V = Return (insert u V)"
| "set_add (JArr xs) V = Raise TypeError"
| "set_add (JObj kvs) V = Raise TypeError"
| "set_add _ V = Return V"

text \<open>
  The loop of lines 77 and 78. It returns the set as mutated so far together with the
  exception that stopped it, if any.
\<close>

fun add_articles :: "json list \<Rightarrow> ustr set \<Rightarrow> ustr set \<times> pyexc option" where
  "add_articles [] V = (V, None)"
| "add_articles (a # as) V =
     (case py_getitem a (py_str ''url'') of
        Raise e \<Rightarrow> (V, Some e)
      | Return u \<Rightarrow>
          (case set_add u V of
             Raise e \<Rightarrow> (V, Some e)
           | Return V' \<Rightarrow> add_articles as V'))"

text \<open>The body of the \<open>try\<close> of lines 74 to 78.\<close>

definition seed_file :: "env \<Rightarrow> content_of_file option \<Rightarrow> ustr set \<Rightarrow> ustr set \<times> pyexc option" where
  "seed_file E f V =
     (case json_load E f of
        Raise e \<Rightarrow> (V, Some e)
      | Return data \<Rightarrow>
          (case py_in (py_str ''articles'') data of
             Raise e \<Rightarrow> (V, Some e)
           | Return False \<Rightarrow> (V, None)
           | Return True \<Rightarrow>
               (case py_getitem data (py_str ''articles'') of
                  Raise e \<Rightarrow> (V, Some e)
                | Return arts \<Rightarrow>
                    (case py_iter arts of
                       Raise e \<Rightarrow> (V, Some e)
                     | Return xs \<Rightarrow> add_articles xs V))))"

text \<open>\<open>except: pass\<close> drops the exception and keeps the set as it is by then.\<close>

definition load_file :: "env \<Rightarrow> directory \<Rightarrow> ustr \<Rightarrow> ustr set \<Rightarrow> ustr set" where
  "load_file E d f V =
     (if endswith f (py_str ''.json'') then fst (seed_file E (map_of d f) V) else V)"

definition load_existing_urls :: "env \<Rightarrow> state \<Rightarrow> state" where
  "load_existing_urls E st =
     st\<lparr>visited_urls := fold (load_file E (outdir st)) (map fst (outdir st)) (visited_urls st)\<rparr>"

section \<open>The aggregate file\<close>

definition article_json :: "article \<Rightarrow> json" where
  "article_json a = JObj
     [(py_str ''url'', JStr (url a)),
      (py_str ''title'', JStr (title a)),
      (py_str ''content'', JStr (content a)),
      (py_str ''crawl_time'', JStr (crawl_time a)),
      (py_str ''content_length'', JInt (int (content_length a)))]"

definition dataset_json :: "env \<Rightarrow> article list \<Rightarrow> json" where
  "dataset_json E ds = JObj
     [(py_str ''source'', JStr (py_str ''https://www.nur.cn/'')),
      (py_str ''crawl_date'', JStr (final_iso E)),
      (py_str ''total_articles'', JInt (int (length ds))),
      (py_str ''articles'', JArr (map article_json ds))]"

definition json_name :: "env \<Rightarrow> ustr" where
  "json_name E = py_str ''nur_dataset_'' @ final_stamp E @ py_str ''.json''"

definition save_final_dataset ::
  "env \<Rightarrow> article list \<Rightarrow> state \<Rightarrow> ustr option result \<times> state" where
  "save_final_dataset E ds st =
     (if ds = [] then (Return None, st\<lparr>stdout := stdout st @ [NoNewData]\<rparr>)
      else
        (case write_error E (json_name E) (Json (dataset_json E ds)) of
           Some e \<Rightarrow>
             (Raise e,
              st\<lparr>outdir := failed_write E (json_name E) (Json (dataset_json E ds)) (outdir st)\<rparr>)
         | None \<Rightarrow>
             (Return (Some (output_dir @ py_str ''/'' @ json_name E)),
              st\<lparr>outdir := AList.update (json_name E) (Json (dataset_json E ds)) (outdir st)\<rparr>)))"

section \<open>The orchestrator\<close>

definition page_progress :: "state \<Rightarrow> state" where
  "page_progress st =
     (if result_count st mod 500 = 0
      then st\<lparr>stdout := stdout st @
             [PageProgress (result_count st) (success_count st) (skip_count st)]\<rparr>
      else st)"

definition saved_progress :: "article \<Rightarrow> state \<Rightarrow> state" where
  "saved_progress data st =
     (if success_count st mod 100 = 0
      then st\<lparr>stdout := stdout st @ [SavedProgress (success_count st) (take 30 (title data))]\<rparr>
      else st)"

text \<open>The condition of line 124 and that of line 125, together.\<close>

definition passes_filter :: "crawl_result \<Rightarrow> bool" where
  "passes_filter r \<longleftrightarrow>
     (result_success r \<and> truthy (result_html r)) \<and>
     (sublist (py_str ''/news/'') (result_url r) \<and> endswith (result_url r) (py_str ''.shtml''))"

text \<open>
  One iteration of the loop of lines 121 to 142: the state it leaves and the exception
  that leaves the loop, if any.
\<close>

definition step :: "env \<Rightarrow> state \<Rightarrow> crawl_result \<Rightarrow> state \<times> pyexc option" where
  "step E st0 r =
     (let st = st0\<lparr>result_count := result_count st0 + 1\<rparr> in
      if result_success r \<and> truthy (result_html r) then
        if sublist (py_str ''/news/'') (result_url r) \<and> endswith (result_url r) (py_str ''.shtml'') then
          (case is_duplicate (result_url r) st of
             (True, st1) \<Rightarrow> (st1\<lparr>skip_count := skip_count st1 + 1\<rparr>, None)
           | (False, st1) \<Rightarrow>
               let st2 = st1\<lparr>extract_calls := extract_calls st1 @ [(result_html r, result_url r)]\<rparr> in
               (case extract_content E (result_html r) (result_url r) (now_iso E (result_count st2)) of
                  None \<Rightarrow> (page_progress st2, None)
                | Some data \<Rightarrow>
                    let st3 = st2\<lparr>dataset := dataset st2 @ [data],
                                  success_count := success_count st2 + 1\<rparr> in
                    (case save_single_txt E data (outdir st3) of
                       (Raise e, d) \<Rightarrow> (st3\<lparr>outdir := d\<rparr>, Some e)
                     | (Return txt_file, d) \<Rightarrow>
                         (page_progress (saved_progress data (st3\<lparr>outdir := d\<rparr>)), None))))
        else (page_progress st, None)
      else (page_progress st, None))"

fun stream_loop :: "env \<Rightarrow> state \<Rightarrow> crawl_result list \<Rightarrow> state \<times> pyexc option" where
  "stream_loop E st [] = (st, None)"
| "stream_loop E st (r # rs) =
     (case step E st r of
        (st', Some e) \<Rightarrow> (st', Some e)
      | (st', None) \<Rightarrow> stream_loop E st' rs)"

text \<open>The state in which the loop starts: a new extractor, seeded from the directory.\<close>

definition seeded :: "env \<Rightarrow> directory \<Rightarrow> state" where
  "seeded E d = load_existing_urls E (init d)"

text \<open>
  \<open>deep_crawl_nur\<close> on the results the crawler delivers, in the directory \<open>d\<close>: the final
  state, and the value returned or the exception raised.
\<close>

definition deep_crawl_nur ::
  "env \<Rightarrow> directory \<Rightarrow> crawl_result list \<Rightarrow> state \<times> article list result" where
  "deep_crawl_nur E d rs =
     (case stream_loop E (seeded E d) rs of
        (st, Some e) \<Rightarrow> (st, Raise e)
      | (st, None) \<Rightarrow>
          let st1 = st\<lparr>stdout := stdout st @
                      [Summary (result_count st) (success_count st) (skip_count st)]\<rparr> in
          (case save_final_dataset E (dataset st1) st1 of
             (Raise e, st2) \<Rightarrow> (st2, Raise e)
           | (Return output_file, st2) \<Rightarrow>
               (st2\<lparr>stdout := stdout st2 @ [DatasetSaved output_file]\<rparr>, Return (dataset st2))))"

section \<open>A stand-in environment for concrete runs\<close>

text \<open>
  To run the model on concrete inputs the collaborators need values. The stand-in parser
  reads the first line of the markup as the heading and the rest as the body, either
  absent when empty; the stand-in JSON decoder rejects every text; every write succeeds.
\<close>

definition demo_env :: env where
  "demo_env =
     \<lparr>find_title = (\<lambda>m. let t = takeWhile (\<lambda>c. c \<noteq> 10) m in if t = [] then None else Some t),
      find_content = (\<lambda>m. let b = drop 1 (dropWhile (\<lambda>c. c \<noteq> 10) m) in
                        if b = [] then None else Some b),
      json_loads = (\<lambda>s. None),
      now_iso = (\<lambda>n. py_str ''2024-01-01T00:00:00''),
      final_stamp = py_str ''20240101_000000'',
      final_iso = py_str ''2024-01-01T00:00:01'',
      write_error = (\<lambda>n f. None),
      left_on_disk = (\<lambda>n f. None)\<rparr>"

definition demo_page :: "string \<Rightarrow> ustr \<Rightarrow> crawl_result" where
  "demo_page u m = \<lparr>result_url = py_str u, result_success = True, result_html = Some m\<rparr>"

text \<open>
  An article page with heading \<open>Hi\<close> and body \<open>body\<close>; an article page whose markup has
  neither; a fetch that failed; a directory with an unreadable file, a file that is no
  JSON, a dataset file whose only article is a number, and a well-formed dataset file; and
  the record extracted from the first page.
\<close>

definition demo_hi :: crawl_result where
  "demo_hi = demo_page ''/news/1.shtml'' (py_str ''Hi'' @ [10] @ py_str ''body'')"

definition demo_blank :: crawl_result where
  "demo_blank = demo_page ''/news/2.shtml'' [10]"

definition demo_failed :: crawl_result where
  "demo_failed = \<lparr>result_url = py_str ''/news/3.shtml'', result_success = False, result_html = None\<rparr>"

definition demo_history :: directory where
  "demo_history =
     [(py_str ''broken.json'', Unreadable),
      (py_str ''notes.json'', Text (py_str ''not json'')),
      (py_str ''half.json'', Json (JObj [(py_str ''articles'', JArr [JInt 5])])),
      (py_str ''nur_dataset_20231231_000000.json'',
       Json (JObj [(py_str ''articles'',
         JArr [JObj [(py_str ''url'', JStr (py_str ''/news/1.shtml''))]])]))]"

text \<open>
  A directory with a file that decodes to a list, and a dataset file whose second article
  has no \<open>url\<close>.
\<close>

definition demo_partial :: directory where
  "demo_partial =
     [(py_str ''list.json'', Json (JArr [JStr (py_str ''articles'')])),
      (py_str ''nur_dataset_20231231_000000.json'',
       Json (JObj [(py_str ''articles'',
         JArr [JObj [(py_str ''url'', JStr (py_str ''/news/a.shtml''))],
               JObj [(py_str ''title'', JStr (py_str ''no url''))],
               JObj [(py_str ''url'', JStr (py_str ''/news/b.shtml''))]])]))]"

text \<open>
  A second article page and its record; a directory holding an older aggregate file that
  lists the URL of the first page, under the name \<open>demo_env\<close> gives its aggregate file;
  and an article page without a heading, with its record.
\<close>

definition demo_yo :: crawl_result where
  "demo_yo = demo_page ''/news/4.shtml'' (py_str ''Yo'')"

definition demo_yo_article :: article where
  "demo_yo_article =
     \<lparr>url = py_str ''/news/4.shtml'', title = py_str ''Yo'', content = [],
      crawl_time = py_str ''2024-01-01T00:00:00'', content_length = 0\<rparr>"

definition demo_clash :: directory where
  "demo_clash =
     [(py_str ''nur_dataset_20240101_000000.json'',
       Json (JObj [(py_str ''articles'',
         JArr [JObj [(py_str ''url'', JStr (py_str ''/news/1.shtml''))]])]))]"

definition demo_untitled :: crawl_result where
  "demo_untitled = demo_page ''/news/5.shtml'' ([10] @ py_str ''text'')"

definition demo_untitled_article :: article where
  "demo_untitled_article =
     \<lparr>url = py_str ''/news/5.shtml'', title = [], content = py_str ''text'',
      crawl_time = py_str ''2024-01-01T00:00:00'', content_length = 4\<rparr>"

definition demo_hi_article :: article where
  "demo_hi_article =
     \<lparr>url = py_str ''/news/1.shtml'', title = py_str ''Hi'', content = py_str ''body'',
      crawl_time = py_str ''2024-01-01T00:00:00'', content_length = 4\<rparr>"

section \<open>Well-formed dataset files\<close>

text \<open>
  The URL of an article of a dataset file: the string under the key \<open>url\<close> of an object.
  A list of articles is well formed when each of them has one.
\<close>

fun article_url :: "json \<Rightarrow> ustr option" where
  "article_url (JObj kv) =
     (case map_of kv (py_str ''url'') of Some (JStr u) \<Rightarrow> Some u | _ \<Rightarrow> None)"
| "article_url _ = None"

text \<open>
  Whether line 78 raises on an article: it has no \<open>url\<close> to read, or its \<open>url\<close> is
  unhashable.
\<close>

definition article_raises :: "json \<Rightarrow> bool" where
  "article_raises a =
     (case py_getitem a (py_str ''url'') of
        Raise e \<Rightarrow> True
      | Return u \<Rightarrow> (case set_add u {} of Raise e \<Rightarrow> True | Return V \<Rightarrow> False))"

section \<open>Invariants\<close>

text \<open>The files that seeding reads are those the loop never writes.\<close>

definition same_json_files :: "directory \<Rightarrow> directory \<Rightarrow> bool" where
  "same_json_files d d' \<longleftrightarrow>
     (\<forall>n. endswith n (py_str ''.json'') \<longrightarrow>
        map_of d' n = map_of d n \<and> (n \<in> fst ` set d' \<longleftrightarrow> n \<in> fst ` set d))"

text \<open>What the loop keeps true of the ledger, the call log and the run buffer.\<close>

definition ledger_inv :: "env \<Rightarrow> state \<Rightarrow> bool" where
  "ledger_inv E st \<longleftrightarrow>
     distinct (map snd (extract_calls st)) \<and>
     snd ` set (extract_calls st) \<subseteq> visited_urls st \<and>
     distinct (map url (dataset st)) \<and>
     (\<forall>a \<in> set (dataset st). content_length a = length (content a) \<and>
        (\<exists>h. (h, url a) \<in> set (extract_calls st) \<and>
           extract_content E h (url a) (crawl_time a) = Some a))"

text \<open>The definitions a concrete run unfolds.\<close>

lemmas run_defs =
  deep_crawl_nur_def seeded_def load_existing_urls_def init_def step_def
  is_duplicate_def extract_content_def extracted_title_def extracted_content_def
  save_single_txt_def safe_title_def illegal_def txt_body_def page_progress_def
  saved_progress_def save_final_dataset_def json_name_def dataset_json_def article_json_def
  output_dir_def truthy_def endswith_def py_str_def demo_env_def demo_page_def
  demo_hi_def demo_blank_def demo_failed_def demo_hi_article_def passes_filter_def
  demo_yo_def demo_yo_article_def demo_clash_def demo_untitled_def demo_untitled_article_def
  sublist_Cons_right suffix_to_prefix Let_def

section \<open>Facts about the extractor, the writer and the aggregate document\<close>

lemma py_str_eq_simps [simp]:
  "py_str s = py_str t \<longleftrightarrow> s = t"
  by (simp add: py_str_def inj_on_def)

lemma extract_content_url:
  "extract_content E h u now = Some a \<Longrightarrow> url a = u \<and> content_length a = length (content a)"
  by (auto simp: extract_content_def split: option.splits if_splits)

lemma extract_content_crawl_time:
  "extract_content E h u now = Some a \<Longrightarrow> crawl_time a = now"
  by (auto simp: extract_content_def split: option.splits if_splits)

lemma extract_content_time:
  "extract_content E h u now = None \<Longrightarrow> extract_content E h u now' = None"
  by (auto simp: extract_content_def split: option.splits if_splits)

lemma extract_content_same_parser:
  "find_title E' = find_title E \<Longrightarrow> find_content E' = find_content E \<Longrightarrow>
   extract_content E h u now = None \<Longrightarrow> extract_content E' h u now' = None"
  by (auto simp: extract_content_def extracted_title_def extracted_content_def
      split: option.splits if_splits)

lemma safe_title_length: "length (safe_title t) = min 50 (length t)"
  by (simp add: safe_title_def min.commute)

lemma safe_title_nth:
  "i < length (safe_title t) \<Longrightarrow>
   safe_title t ! i = (if t ! i \<in> {60, 62, 58, 34, 47, 92, 124, 63, 42} then 95 else t ! i)"
  by (simp add: safe_title_def illegal_def)

lemma save_single_txt_titled:
  "title data \<noteq> [] \<Longrightarrow>
   write_error E (safe_title (title data) @ py_str ''.txt'')
     (Text (title data @ [10, 10] @ content data)) = None \<Longrightarrow>
   save_single_txt E data d =
     (Return (Some (safe_title (title data) @ py_str ''.txt'')),
      AList.update (safe_title (title data) @ py_str ''.txt'')
        (Text (title data @ [10, 10] @ content data)) d)"
  by (simp add: save_single_txt_def txt_body_def Let_def)

lemma save_single_txt_untitled:
  "title data = [] \<Longrightarrow> save_single_txt E data d = (Return None, d)"
  by (simp add: save_single_txt_def)

lemma txt_name_not_json: "\<not> endswith (x @ py_str ''.txt'') (py_str ''.json'')"
proof
  assume "endswith (x @ py_str ''.txt'') (py_str ''.json'')"
  then obtain zs where "x @ py_str ''.txt'' = zs @ py_str ''.json''"
    by (auto simp: endswith_def suffix_def)
  then have "last (x @ py_str ''.txt'') = last (zs @ py_str ''.json'')" by simp
  then show False by (simp add: py_str_def)
qed

lemma json_name_endswith [simp]: "endswith (json_name E) (py_str ''.json'')"
  by (simp add: endswith_def json_name_def suffix_def)

lemma py_getitem_article_json:
  "py_getitem (article_json a) (py_str ''content'') = Return (JStr (content a))"
  "py_getitem (article_json a) (py_str ''content_length'') = Return (JInt (int (content_length a)))"
  "py_getitem (article_json a) (py_str ''url'') = Return (JStr (url a))"
  "py_getitem (article_json a) (py_str ''title'') = Return (JStr (title a))"
  by (simp_all add: article_json_def)

lemma py_getitem_dataset_json:
  "py_getitem (dataset_json E ds) (py_str ''articles'') = Return (JArr (map article_json ds))"
  "py_getitem (dataset_json E ds) (py_str ''total_articles'') = Return (JInt (int (length ds)))"
  by (simp_all add: dataset_json_def)

section \<open>One iteration of the loop\<close>

lemma step_reject:
  "\<not> passes_filter r \<Longrightarrow>
   step E st r = (page_progress (st\<lparr>result_count := result_count st + 1\<rparr>), None)"
  by (auto simp: step_def passes_filter_def Let_def)

lemma step_duplicate:
  "passes_filter r \<Longrightarrow> result_url r \<in> visited_urls st \<Longrightarrow>
   step E st r = (st\<lparr>result_count := result_count st + 1, skip_count := skip_count st + 1\<rparr>, None)"
  by (simp add: step_def passes_filter_def Let_def is_duplicate_def)

lemma step_empty:
  "passes_filter r \<Longrightarrow> result_url r \<notin> visited_urls st \<Longrightarrow>
   extract_content E (result_html r) (result_url r) (now_iso E (result_count st + 1)) = None \<Longrightarrow>
   step E st r =
     (page_progress (st\<lparr>result_count := result_count st + 1,
        visited_urls := insert (result_url r) (visited_urls st),
        extract_calls := extract_calls st @ [(result_html r, result_url r)]\<rparr>), None)"
  by (simp add: step_def passes_filter_def Let_def is_duplicate_def)

lemma step_capture:
  "passes_filter r \<Longrightarrow> result_url r \<notin> visited_urls st \<Longrightarrow>
   extract_content E (result_html r) (result_url r) (now_iso E (result_count st + 1)) = Some data \<Longrightarrow>
   step E st r =
     (case save_single_txt E data (outdir st) of
        (Raise e, d) \<Rightarrow>
          (st\<lparr>result_count := result_count st + 1,
             visited_urls := insert (result_url r) (visited_urls st),
             extract_calls := extract_calls st @ [(result_html r, result_url r)],
             dataset := dataset st @ [data],
             success_count := success_count st + 1,
             outdir := d\<rparr>, Some e)
      | (Return txt_file, d) \<Rightarrow>
          (page_progress (saved_progress data
             (st\<lparr>result_count := result_count st + 1,
                visited_urls := insert (result_url r) (visited_urls st),
                extract_calls := extract_calls st @ [(result_html r, result_url r)],
                dataset := dataset st @ [data],
                success_count := success_count st + 1,
                outdir := d\<rparr>)), None))"
  by (simp add: step_def passes_filter_def Let_def is_duplicate_def
      split: prod.splits result.splits)

text \<open>The four ways an iteration can go.\<close>

lemma step_cases:
  obtains
    (reject) "\<not> passes_filter r"
      "step E st r = (page_progress (st\<lparr>result_count := result_count st + 1\<rparr>), None)"
  | (duplicate) "passes_filter r" "result_url r \<in> visited_urls st"
      "step E st r = (st\<lparr>result_count := result_count st + 1, skip_count := skip_count st + 1\<rparr>, None)"
  | (empty) "passes_filter r" "result_url r \<notin> visited_urls st"
      "extract_content E (result_html r) (result_url r) (now_iso E (result_count st + 1)) = None"
      "step E st r =
         (page_progress (st\<lparr>result_count := result_count st + 1,
            visited_urls := insert (result_url r) (visited_urls st),
            extract_calls := extract_calls st @ [(result_html r, result_url r)]\<rparr>), None)"
  | (raised) data e d where "passes_filter r" "result_url r \<notin> visited_urls st"
      "extract_content E (result_html r) (result_url r) (now_iso E (result_count st + 1)) = Some data"
      "save_single_txt E data (outdir st) = (Raise e, d)"
      "step E st r =
         (st\<lparr>result_count := result_count st + 1,
             visited_urls := insert (result_url r) (visited_urls st),
             extract_calls := extract_calls st @ [(result_html r, result_url r)],
             dataset := dataset st @ [data],
             success_count := success_count st + 1,
             outdir := d\<rparr>, Some e)"
  | (captured) data txt_file d where "passes_filter r" "result_url r \<notin> visited_urls st"
      "extract_content E (result_html r) (result_url r) (now_iso E (result_count st + 1)) = Some data"
      "save_single_txt E data (outdir st) = (Return txt_file, d)"
      "step E st r =
          (page_progress (saved_progress data
             (st\<lparr>result_count := result_count st + 1,
                visited_urls := insert (result_url r) (visited_urls st),
                extract_calls := extract_calls st @ [(result_html r, result_url r)],
                dataset := dataset st @ [data],
                success_count := success_count st + 1,
                outdir := d\<rparr>)), None)"
proof (cases "passes_filter r")
  case False
  then show ?thesis using reject step_reject by blast
next
  case pf: True
  show ?thesis
  proof (cases "result_url r \<in> visited_urls st")
    case True
    then show ?thesis using pf duplicate step_duplicate by blast
  next
    case nv: False
    show ?thesis
    proof (cases "extract_content E (result_html r) (result_url r) (now_iso E (result_count st + 1))")
      case None
      then show ?thesis using pf nv empty step_empty by blast
    next
      case (Some data)
      obtain res d where s: "save_single_txt E data (outdir st) = (res, d)"
        by (cases "save_single_txt E data (outdir st)")
      show ?thesis
      proof (cases res)
        case (Return txt_file)
        with s step_capture [OF pf nv Some] captured [OF pf nv Some] show ?thesis
          by simp
      next
        case (Raise e)
        with s step_capture [OF pf nv Some] raised [OF pf nv Some] show ?thesis
          by simp
      qed
    qed
  qed
qed

lemma page_progress_fields [simp]:
  "dataset (page_progress st) = dataset st"
  "visited_urls (page_progress st) = visited_urls st"
  "outdir (page_progress st) = outdir st"
  "result_count (page_progress st) = result_count st"
  "success_count (page_progress st) = success_count st"
  "skip_count (page_progress st) = skip_count st"
  "extract_calls (page_progress st) = extract_calls st"
  by (simp_all add: page_progress_def)

lemma saved_progress_fields [simp]:
  "dataset (saved_progress a st) = dataset st"
  "visited_urls (saved_progress a st) = visited_urls st"
  "outdir (saved_progress a st) = outdir st"
  "result_count (saved_progress a st) = result_count st"
  "success_count (saved_progress a st) = success_count st"
  "skip_count (saved_progress a st) = skip_count st"
  "extract_calls (saved_progress a st) = extract_calls st"
  by (simp_all add: saved_progress_def)

lemma step_success_count:
  "success_count st = length (dataset st) \<Longrightarrow>
   success_count (fst (step E st r)) = length (dataset (fst (step E st r)))"
  by (rule step_cases [where E = E and st = st and r = r]) simp_all

lemma step_visited_urls:
  "visited_urls (fst (step E st r)) =
     (if passes_filter r then insert (result_url r) (visited_urls st) else visited_urls st)"
  by (rule step_cases [where E = E and st = st and r = r]) auto

lemma step_result_count:
  "result_count (fst (step E st r)) = result_count st + 1"
  by (rule step_cases [where E = E and st = st and r = r]) auto

lemma step_dataset_prefix: "prefix (dataset st) (dataset (fst (step E st r)))"
  by (rule step_cases [where E = E and st = st and r = r]) simp_all

lemma step_extract_calls:
  "(h, u) \<in> set (extract_calls (fst (step E st r))) \<Longrightarrow>
   (h, u) \<in> set (extract_calls st) \<or>
   (passes_filter r \<and> result_url r \<notin> visited_urls st \<and> h = result_html r \<and> u = result_url r)"
  by (rule step_cases [where E = E and st = st and r = r]) auto

lemma step_no_capture:
  assumes "result_url r \<in> visited_urls t \<or> \<not> passes_filter r \<or>
      extract_content E (result_html r) (result_url r) (now_iso E (result_count t + 1)) = None"
  shows "snd (step E t r) = None \<and> dataset (fst (step E t r)) = dataset t \<and>
     success_count (fst (step E t r)) = success_count t \<and> outdir (fst (step E t r)) = outdir t"
proof (rule step_cases [where E = E and st = t and r = r])
qed (use assms in auto)

lemma step_captured_url:
  assumes "passes_filter r" "result_url r \<notin> visited_urls s"
    "extract_content E (result_html r) (result_url r) (now_iso E (result_count s + 1)) \<noteq> None"
  shows "result_url r \<in> url ` set (dataset (fst (step E s r)))"
proof -
  from assms(3) obtain data where
    d: "extract_content E (result_html r) (result_url r) (now_iso E (result_count s + 1)) = Some data"
    by blast
  then have u: "url data = result_url r" by (simp add: extract_content_url)
  have "data \<in> set (dataset (fst (step E s r)))"
    using step_capture [OF assms(1,2) d] by (simp split: prod.splits result.splits)
  with u show ?thesis by force
qed

lemma step_without_record:
  "snd (step E st r) = None \<Longrightarrow> dataset (fst (step E st r)) = dataset st \<Longrightarrow>
   outdir (fst (step E st r)) = outdir st"
  by (rule step_cases [where E = E and st = st and r = r]) simp_all

section \<open>The loop\<close>

text \<open>A property kept by every iteration holds in whatever state the loop is left.\<close>

lemma stream_loop_invariant:
  assumes "\<And>st r. P st \<Longrightarrow> P (fst (step E st r))" and "P st"
  shows "P (fst (stream_loop E st rs))"
  using assms(2)
proof (induction rs arbitrary: st)
  case Nil
  then show ?case by simp
next
  case (Cons r rs)
  obtain st' x where s: "step E st r = (st', x)" by (cases "step E st r")
  have "P st'" using assms(1) [OF Cons.prems, of r] s by simp
  then show ?case using Cons.IH [of st'] s by (cases x) simp_all
qed

lemma stream_loop_append:
  "stream_loop E st (xs @ ys) =
     (case stream_loop E st xs of
        (st', Some e) \<Rightarrow> (st', Some e)
      | (st', None) \<Rightarrow> stream_loop E st' ys)"
  by (induction xs arbitrary: st) (auto split: prod.splits option.splits)

lemma stream_loop_snoc:
  "stream_loop E st rs = (st', None) \<Longrightarrow> stream_loop E st (rs @ [r]) = step E st' r"
  by (simp add: stream_loop_append split: prod.splits option.splits)

lemma seeded_fields [simp]:
  "dataset (seeded E d) = []" "outdir (seeded E d) = d" "result_count (seeded E d) = 0"
  "success_count (seeded E d) = 0" "skip_count (seeded E d) = 0" "stdout (seeded E d) = []"
  "extract_calls (seeded E d) = []"
  by (simp_all add: seeded_def load_existing_urls_def init_def)

lemma stream_loop_success_count:
  "success_count st = length (dataset st) \<Longrightarrow>
   success_count (fst (stream_loop E st rs)) = length (dataset (fst (stream_loop E st rs)))"
  by (rule stream_loop_invariant [where P = "\<lambda>s. success_count s = length (dataset s)"])
     (simp_all add: step_success_count)

lemma stream_loop_visited_urls:
  "stream_loop E st rs = (st', None) \<Longrightarrow>
   visited_urls st' = visited_urls st \<union> result_url ` {r \<in> set rs. passes_filter r}"
proof (induction rs arbitrary: st)
  case Nil
  then show ?case by simp
next
  case (Cons r rs)
  obtain s x where s: "step E st r = (s, x)" by (cases "step E st r")
  with Cons.prems have x: "x = None" and l: "stream_loop E s rs = (st', None)"
    by (cases x; simp)+
  have "visited_urls s =
     (if passes_filter r then insert (result_url r) (visited_urls st) else visited_urls st)"
    using step_visited_urls [of E st r] s by simp
  with Cons.IH [OF l] show ?case by auto
qed

lemma stream_loop_visited_mono:
  "visited_urls st \<subseteq> visited_urls (fst (stream_loop E st rs))"
  by (rule stream_loop_invariant [where P = "\<lambda>s. visited_urls st \<subseteq> visited_urls s"])
     (auto simp: step_visited_urls)

lemma stream_loop_result_count:
  "stream_loop E st rs = (st', None) \<Longrightarrow> result_count st' = result_count st + length rs"
proof (induction rs arbitrary: st)
  case Nil
  then show ?case by simp
next
  case (Cons r rs)
  obtain s x where s: "step E st r = (s, x)" by (cases "step E st r")
  with Cons.prems have l: "stream_loop E s rs = (st', None)"
    by (cases x) simp_all
  from Cons.IH [OF l] step_result_count [of E st r] s show ?case by simp
qed

lemma stream_loop_dataset_prefix: "prefix (dataset st) (dataset (fst (stream_loop E st rs)))"
  by (rule stream_loop_invariant [where P = "\<lambda>s. prefix (dataset st) (dataset s)"])
     (auto intro: prefix_order.trans step_dataset_prefix)

lemma stream_loop_extract_calls:
  "(h, u) \<in> set (extract_calls (fst (stream_loop E st rs))) \<Longrightarrow>
   (h, u) \<in> set (extract_calls st) \<or>
   (u \<notin> visited_urls st \<and> (\<exists>r \<in> set rs. passes_filter r \<and> h = result_html r \<and> u = result_url r))"
proof (induction rs arbitrary: st)
  case Nil
  then show ?case by simp
next
  case (Cons r rs)
  obtain s x where s: "step E st r = (s, x)" by (cases "step E st r")
  have sub: "visited_urls st \<subseteq> visited_urls s"
    using step_visited_urls [of E st r] s by auto
  show ?case
  proof (cases x)
    case (Some e)
    with Cons.prems s have "(h, u) \<in> set (extract_calls (fst (step E st r)))" by simp
    from step_extract_calls [OF this] show ?thesis by auto
  next
    case None
    with Cons.prems s have "(h, u) \<in> set (extract_calls (fst (stream_loop E s rs)))" by simp
    from Cons.IH [OF this] show ?thesis
    proof
      assume "(h, u) \<in> set (extract_calls s)"
      then have "(h, u) \<in> set (extract_calls (fst (step E st r)))" using s by simp
      from step_extract_calls [OF this] show ?thesis by auto
    next
      assume "u \<notin> visited_urls s \<and> (\<exists>r\<in>set rs. passes_filter r \<and> h = result_html r \<and> u = result_url r)"
      with sub show ?thesis by auto
    qed
  qed
qed

lemma seeded_calls_not_seeded:
  "(h, u) \<in> set (extract_calls (fst (stream_loop E (seeded E d) rs))) \<Longrightarrow>
   u \<notin> visited_urls (seeded E d)"
  using stream_loop_extract_calls [of h u E "seeded E d" rs] by simp

lemma distinct_snd_unique:
  "distinct (map snd xs) \<Longrightarrow> (a, k) \<in> set xs \<Longrightarrow> (b, k) \<in> set xs \<Longrightarrow> a = b"
  by (induction xs) (auto simp: image_iff)

lemma ledger_inv_step: "ledger_inv E st \<Longrightarrow> ledger_inv E (fst (step E st r))"
proof (rule step_cases [where E = E and st = st and r = r])
  fix data e d
  assume inv: "ledger_inv E st" and nv: "result_url r \<notin> visited_urls st"
    and ex: "extract_content E (result_html r) (result_url r) (now_iso E (result_count st + 1)) = Some data"
    and s: "step E st r =
         (st\<lparr>result_count := result_count st + 1,
             visited_urls := insert (result_url r) (visited_urls st),
             extract_calls := extract_calls st @ [(result_html r, result_url r)],
             dataset := dataset st @ [data],
             success_count := success_count st + 1,
             outdir := d\<rparr>, Some e)"
  from ex have d: "url data = result_url r" "content_length data = length (content data)"
    "crawl_time data = now_iso E (result_count st + 1)"
    using extract_content_url extract_content_crawl_time by blast+
  have "result_url r \<notin> url ` set (dataset st)"
    using inv nv unfolding ledger_inv_def by force
  with inv nv d ex show "ledger_inv E (fst (step E st r))"
    unfolding s ledger_inv_def by (auto simp: image_iff)
next
  fix data txt_file d
  assume inv: "ledger_inv E st" and nv: "result_url r \<notin> visited_urls st"
    and ex: "extract_content E (result_html r) (result_url r) (now_iso E (result_count st + 1)) = Some data"
    and s: "step E st r =
          (page_progress (saved_progress data
             (st\<lparr>result_count := result_count st + 1,
                visited_urls := insert (result_url r) (visited_urls st),
                extract_calls := extract_calls st @ [(result_html r, result_url r)],
                dataset := dataset st @ [data],
                success_count := success_count st + 1,
                outdir := d\<rparr>)), None)"
  from ex have d: "url data = result_url r" "content_length data = length (content data)"
    "crawl_time data = now_iso E (result_count st + 1)"
    using extract_content_url extract_content_crawl_time by blast+
  have "result_url r \<notin> url ` set (dataset st)"
    using inv nv unfolding ledger_inv_def by force
  with inv nv d ex show "ledger_inv E (fst (step E st r))"
    unfolding s ledger_inv_def by (auto simp: image_iff)
qed (auto simp: ledger_inv_def)

lemma ledger_inv_seeded: "ledger_inv E (seeded E d)"
  by (simp add: ledger_inv_def)

lemma ledger_inv_loop: "ledger_inv E (fst (stream_loop E (seeded E d) rs))"
  by (rule stream_loop_invariant [where P = "ledger_inv E"])
     (simp_all add: ledger_inv_step ledger_inv_seeded)

section \<open>Runs that return\<close>

lemma deep_crawl_nur_raised:
  "stream_loop E (seeded E d) rs = (st, Some e) \<Longrightarrow> deep_crawl_nur E d rs = (st, Raise e)"
  by (simp add: deep_crawl_nur_def)

lemma deep_crawl_nur_empty:
  "stream_loop E (seeded E d) rs = (st, None) \<Longrightarrow> dataset st = [] \<Longrightarrow>
   deep_crawl_nur E d rs =
     (st\<lparr>stdout := stdout st @
         [Summary (result_count st) (success_count st) (skip_count st), NoNewData,
          DatasetSaved None]\<rparr>, Return [])"
  by (simp add: deep_crawl_nur_def save_final_dataset_def Let_def)

lemma deep_crawl_nur_saved:
  "stream_loop E (seeded E d) rs = (st, None) \<Longrightarrow> dataset st \<noteq> [] \<Longrightarrow>
   write_error E (json_name E) (Json (dataset_json E (dataset st))) = None \<Longrightarrow>
   deep_crawl_nur E d rs =
     (st\<lparr>stdout := stdout st @
         [Summary (result_count st) (success_count st) (skip_count st),
          DatasetSaved (Some (output_dir @ py_str ''/'' @ json_name E))],
        outdir := AList.update (json_name E) (Json (dataset_json E (dataset st))) (outdir st)\<rparr>,
      Return (dataset st))"
  by (simp add: deep_crawl_nur_def save_final_dataset_def Let_def)

lemma deep_crawl_nur_write_failed:
  "stream_loop E (seeded E d) rs = (st, None) \<Longrightarrow> dataset st \<noteq> [] \<Longrightarrow>
   write_error E (json_name E) (Json (dataset_json E (dataset st))) = Some e \<Longrightarrow>
   deep_crawl_nur E d rs =
     (st\<lparr>stdout := stdout st @
         [Summary (result_count st) (success_count st) (skip_count st)],
        outdir := failed_write E (json_name E) (Json (dataset_json E (dataset st))) (outdir st)\<rparr>,
      Raise e)"
  by (simp add: deep_crawl_nur_def save_final_dataset_def Let_def)

text \<open>A run that returns has left the loop normally, and ended in one of two ways.\<close>

lemma deep_crawl_nur_ReturnE:
  assumes "deep_crawl_nur E d rs = (st, Return ds)"
  obtains
    (empty) st0 where "stream_loop E (seeded E d) rs = (st0, None)" "dataset st0 = []" "ds = []"
      "st = st0\<lparr>stdout := stdout st0 @
         [Summary (result_count st0) (success_count st0) (skip_count st0), NoNewData,
          DatasetSaved None]\<rparr>"
  | (saved) st0 where "stream_loop E (seeded E d) rs = (st0, None)" "dataset st0 \<noteq> []"
      "ds = dataset st0"
      "write_error E (json_name E) (Json (dataset_json E (dataset st0))) = None"
      "st = st0\<lparr>stdout := stdout st0 @
         [Summary (result_count st0) (success_count st0) (skip_count st0),
          DatasetSaved (Some (output_dir @ py_str ''/'' @ json_name E))],
        outdir := AList.update (json_name E) (Json (dataset_json E (dataset st0))) (outdir st0)\<rparr>"
proof -
  obtain st0 x where l: "stream_loop E (seeded E d) rs = (st0, x)"
    by (cases "stream_loop E (seeded E d) rs")
  show ?thesis
  proof (cases x)
    case (Some e)
    with l assms deep_crawl_nur_raised [of E d rs st0 e] show ?thesis by simp
  next
    case None
    note l0 = l [unfolded None]
    show ?thesis
    proof (cases "dataset st0 = []")
      case True
      with deep_crawl_nur_empty [OF l0 True] assms empty [OF l0 True] show ?thesis by simp
    next
      case ne: False
      show ?thesis
      proof (cases "write_error E (json_name E) (Json (dataset_json E (dataset st0)))")
        case None
        with deep_crawl_nur_saved [OF l0 ne None] assms saved [OF l0 ne _ None] show ?thesis by simp
      next
        case (Some e)
        with deep_crawl_nur_write_failed [OF l0 ne Some] assms show ?thesis by simp
      qed
    qed
  qed
qed

lemma extract_calls_deep_crawl_nur:
  "extract_calls (fst (deep_crawl_nur E d rs)) = extract_calls (fst (stream_loop E (seeded E d) rs))"
proof -
  obtain st x where l: "stream_loop E (seeded E d) rs = (st, x)"
    by (cases "stream_loop E (seeded E d) rs")
  show ?thesis
  proof (cases x)
    case (Some e)
    with l deep_crawl_nur_raised [of E d rs st e] show ?thesis by simp
  next
    case None
    note l0 = l [unfolded None]
    show ?thesis
    proof (cases "dataset st = []")
      case True
      with deep_crawl_nur_empty [OF l0 True] l0 show ?thesis by simp
    next
      case ne: False
      show ?thesis
      proof (cases "write_error E (json_name E) (Json (dataset_json E (dataset st)))")
        case None
        with deep_crawl_nur_saved [OF l0 ne None] l0 show ?thesis by simp
      next
        case (Some e)
        with deep_crawl_nur_write_failed [OF l0 ne Some] l0 show ?thesis by simp
      qed
    qed
  qed
qed

section \<open>Seeding\<close>

lemma set_add_Return:
  "set_add u V = Return V' \<Longrightarrow> \<exists>U. V' = V \<union> U \<and> (\<forall>W. set_add u W = Return (W \<union> U))"
  by (cases u) (auto intro: exI [of _ "{}"] exI [of _ "{x}" for x])

lemma set_add_Raise:
  "set_add u V = Raise e \<Longrightarrow> set_add u W = Raise e"
  by (cases u) auto

text \<open>What a list of articles adds does not depend on the set it is added to.\<close>

lemma add_articles_union:
  "add_articles xs V = (V \<union> fst (add_articles xs {}), snd (add_articles xs {}))"
proof (induction xs arbitrary: V)
  case Nil
  then show ?case by simp
next
  case (Cons a as)
  show ?case
  proof (cases "py_getitem a (py_str ''url'')")
    case (Raise e)
    then show ?thesis by simp
  next
    case (Return u)
    show ?thesis
    proof (cases "set_add u V")
      case r: (Raise e)
      from set_add_Raise [OF r] r Return show ?thesis by simp
    next
      case r: (Return V')
      from set_add_Return [OF r] obtain U where
        U: "V' = V \<union> U" "\<And>W. set_add u W = Return (W \<union> U)" by blast
      have "add_articles as (V \<union> U) = (V \<union> U \<union> fst (add_articles as {}), snd (add_articles as {}))"
        by (rule Cons.IH)
      moreover have "add_articles as ({} \<union> U) = ({} \<union> U \<union> fst (add_articles as {}), snd (add_articles as {}))"
        by (rule Cons.IH)
      ultimately show ?thesis using Return U(2) by (simp add: Un_assoc)
    qed
  qed
qed

lemma seed_file_union:
  "seed_file E f V = (V \<union> fst (seed_file E f {}), snd (seed_file E f {}))"
proof -
  have a: "add_articles xs V = (V \<union> fst (add_articles xs {}), snd (add_articles xs {}))" for xs
    by (rule add_articles_union)
  show ?thesis
    unfolding seed_file_def
    by (simp add: a split: result.splits bool.splits)
qed

lemma load_file_union:
  "load_file E d f V = V \<union> load_file E d f {}"
  using seed_file_union [of E "map_of d f" V] by (simp add: load_file_def)

lemma fold_load_file:
  "fold (load_file E d) ns V = V \<union> (\<Union>n \<in> set ns. load_file E d n {})"
proof (induction ns arbitrary: V)
  case Nil
  then show ?case by simp
next
  case (Cons n ns)
  show ?case
    using Cons.IH [of "load_file E d n V"] load_file_union [of E d n V] by auto
qed

lemma visited_urls_load_existing_urls:
  "visited_urls (load_existing_urls E st) =
     visited_urls st \<union> (\<Union>n \<in> fst ` set (outdir st). load_file E (outdir st) n {})"
  by (simp add: load_existing_urls_def fold_load_file)

lemma visited_urls_seeded:
  "visited_urls (seeded E d) = (\<Union>n \<in> fst ` set d. load_file E d n {})"
  by (simp add: seeded_def visited_urls_load_existing_urls init_def)

lemma load_file_not_json:
  "\<not> endswith n (py_str ''.json'') \<Longrightarrow> load_file E d n V = V"
  by (simp add: load_file_def)

lemma visited_urls_seeded_json:
  "visited_urls (seeded E d) =
     (\<Union>n \<in> {n \<in> fst ` set d. endswith n (py_str ''.json'')}. load_file E d n {})"
proof -
  have "load_file E d n {} = {}" if "\<not> endswith n (py_str ''.json'')" for n
    using that by (simp add: load_file_not_json)
  then show ?thesis
    unfolding visited_urls_seeded by fastforce
qed

text \<open>An article object with a string under \<open>url\<close>.\<close>

lemma add_articles_well_formed:
  "list_all (\<lambda>a. article_url a \<noteq> None) xs \<Longrightarrow>
   add_articles xs V = (V \<union> {u. \<exists>a \<in> set xs. article_url a = Some u}, None)"
proof (induction xs arbitrary: V)
  case Nil
  then show ?case by simp
next
  case (Cons a as)
  from Cons.prems obtain u where u: "article_url a = Some u" by auto
  then obtain kv where a: "a = JObj kv" "map_of kv (py_str ''url'') = Some (JStr u)"
    by (cases a) (auto split: option.splits json.splits)
  from Cons.prems have "list_all (\<lambda>a. article_url a \<noteq> None) as" by simp
  from Cons.IH [OF this, of "insert u V"] a u show ?case by auto
qed

lemma article_url_article_json [simp]: "article_url (article_json a) = Some (url a)"
  by (simp add: article_json_def)

lemma add_articles_dataset:
  "add_articles (map article_json ds) V = (V \<union> url ` set ds, None)"
proof -
  have "list_all (\<lambda>a. article_url a \<noteq> None) (map article_json ds)"
    by (simp add: list_all_iff)
  from add_articles_well_formed [OF this, of V] show ?thesis
    by (auto simp: image_iff)
qed

lemma seed_file_dataset:
  "seed_file E (Some (Json (dataset_json E' ds))) V = (V \<union> url ` set ds, None)"
  by (simp add: seed_file_def json_load_def dataset_json_def add_articles_dataset)

lemma visited_urls_seeded_single:
  "endswith n (py_str ''.json'') \<Longrightarrow>
   visited_urls (seeded E [(n, Json (dataset_json E' ds))]) = url ` set ds"
  by (simp add: visited_urls_seeded load_file_def seed_file_dataset)

lemma seeded_contains_aggregate:
  "url ` set ds \<subseteq>
     visited_urls (seeded E' (AList.update (json_name E) (Json (dataset_json E ds)) d0))"
proof -
  let ?d1 = "AList.update (json_name E) (Json (dataset_json E ds)) d0"
  have "load_file E' ?d1 (json_name E) {} = url ` set ds"
    by (simp add: load_file_def update_conv' seed_file_dataset)
  moreover have "json_name E \<in> fst ` set ?d1"
    by (simp add: dom_update)
  moreover have "load_file E' ?d1 n {} \<subseteq> visited_urls (seeded E' ?d1)"
    if "n \<in> fst ` set ?d1" for n
    unfolding visited_urls_seeded using that by (rule UN_upper)
  ultimately show ?thesis by metis
qed

lemma set_add_independent:
  "set_add u V = Raise e \<longleftrightarrow> set_add u {} = Raise e"
  by (cases u) auto

lemma set_add_str:
  "set_add u V = Return V' \<Longrightarrow> V' = V \<union> {x. u = JStr x}"
  by (cases u) auto

lemma article_url_getitem:
  "py_getitem a (py_str ''url'') = Return u \<Longrightarrow> article_url a = Some x \<longleftrightarrow> u = JStr x"
  by (cases a; cases u) (auto split: option.splits json.splits)

lemma article_url_raises: "article_url a = Some x \<Longrightarrow> \<not> article_raises a"
  by (cases a) (auto simp: article_raises_def split: option.splits json.splits)

text \<open>
  What the loop of lines 77 and 78 adds: the URLs of the articles before the first on
  which it raises.
\<close>

lemma add_articles_takeWhile:
  "fst (add_articles xs V) =
     V \<union> {u. \<exists>a \<in> set (takeWhile (\<lambda>a. \<not> article_raises a) xs). article_url a = Some u}"
proof (induction xs arbitrary: V)
  case Nil
  then show ?case by simp
next
  case (Cons a as)
  show ?case
  proof (cases "py_getitem a (py_str ''url'')")
    case (Raise e)
    then show ?thesis by (simp add: article_raises_def)
  next
    case (Return u)
    show ?thesis
    proof (cases "set_add u V")
      case r: (Raise e)
      then have "set_add u {} = Raise e" using set_add_independent by blast
      with Return r show ?thesis by (simp add: article_raises_def)
    next
      case r: (Return V')
      have nr: "\<not> article_raises a"
      proof -
        have "set_add u {} \<noteq> Raise e" for e
          using r set_add_independent [of u V e] by simp
        then show ?thesis
          using Return by (auto simp: article_raises_def split: result.splits)
      qed
      have V': "V' = V \<union> {x. article_url a = Some x}"
        using set_add_str [OF r] article_url_getitem [OF Return] by auto
      from Return r nr Cons.IH [of V'] V' show ?thesis by auto
    qed
  qed
qed

lemma add_articles_raises:
  "snd (add_articles xs V) \<noteq> None \<longleftrightarrow> (\<exists>a \<in> set xs. article_raises a)"
proof (induction xs arbitrary: V)
  case Nil
  then show ?case by simp
next
  case (Cons a as)
  show ?case
  proof (cases "py_getitem a (py_str ''url'')")
    case (Raise e)
    then show ?thesis by (simp add: article_raises_def)
  next
    case (Return u)
    show ?thesis
    proof (cases "set_add u V")
      case r: (Raise e)
      then have "set_add u {} = Raise e" using set_add_independent by blast
      with Return r show ?thesis by (simp add: article_raises_def)
    next
      case r: (Return V')
      have nr: "\<not> article_raises a"
      proof -
        have "set_add u {} \<noteq> Raise e" for e
          using r set_add_independent [of u V e] by simp
        then show ?thesis
          using Return by (auto simp: article_raises_def split: result.splits)
      qed
      from Return r nr Cons.IH [of V'] show ?thesis by simp
    qed
  qed
qed

lemma load_file_decoded:
  assumes "endswith n (py_str ''.json'')"
    and "json_load E (map_of d n) = Return (JObj kvs)"
    and "map_of kvs (py_str ''articles'') = Some (JArr arts)"
  shows "load_file E d n V =
     V \<union> {u. \<exists>a \<in> set (takeWhile (\<lambda>a. \<not> article_raises a) arts). article_url a = Some u}"
    and "snd (seed_file E (map_of d n) V) \<noteq> None \<longleftrightarrow> (\<exists>a \<in> set arts. article_raises a)"
  using assms add_articles_takeWhile [of arts V] add_articles_raises [of arts V]
  by (simp_all add: load_file_def seed_file_def)

lemma add_articles_strings:
  "fst (add_articles (map (\<lambda>x. JStr (f x)) xs) V) = V"
  by (cases xs) simp_all

text \<open>
  A file that decodes to anything but an object whose \<open>articles\<close> is a list adds nothing:
  a membership test, a subscript or the first article raises, or there is nothing to add.
\<close>

lemma load_file_other_shape:
  assumes "json_load E (map_of d n) = Return v"
    and "\<And>kvs arts. v = JObj kvs \<Longrightarrow> map_of kvs (py_str ''articles'') \<noteq> Some (JArr arts)"
  shows "load_file E d n V = V"
proof (cases v)
  case (JObj kvs)
  show ?thesis
  proof (cases "map_of kvs (py_str ''articles'')")
    case None
    with JObj assms(1) show ?thesis by (simp add: load_file_def seed_file_def)
  next
    case (Some arts)
    with assms(2) JObj have "\<forall>xs. arts \<noteq> JArr xs" by auto
    then have "fst (case py_iter arts of Raise e \<Rightarrow> (V, Some e) | Return xs \<Rightarrow> add_articles xs V) = V"
      by (cases arts) (simp_all add: add_articles_strings)
    with JObj Some assms(1) show ?thesis by (simp add: load_file_def seed_file_def)
  qed
qed (use assms(1) in \<open>simp_all add: load_file_def seed_file_def split: bool.splits\<close>)

section \<open>The directory across a run\<close>

lemma update_txt_json_files:
  "same_json_files d0 d \<Longrightarrow> same_json_files d0 (AList.update (x @ py_str ''.txt'') f d)"
  using txt_name_not_json [of x]
  by (auto simp: same_json_files_def update_conv' dom_update)

lemma save_single_txt_json_files:
  "same_json_files d0 d \<Longrightarrow> same_json_files d0 (snd (save_single_txt E data d))"
  by (simp add: save_single_txt_def failed_write_def Let_def update_txt_json_files
      split: option.splits)

lemma step_json_files:
  "same_json_files d0 (outdir st) \<Longrightarrow> same_json_files d0 (outdir (fst (step E st r)))"
proof (rule step_cases [where E = E and st = st and r = r])
  fix data txt_file d
  assume "same_json_files d0 (outdir st)"
    and "save_single_txt E data (outdir st) = (Return txt_file, d)"
    and s: "step E st r =
          (page_progress (saved_progress data
             (st\<lparr>result_count := result_count st + 1,
                visited_urls := insert (result_url r) (visited_urls st),
                extract_calls := extract_calls st @ [(result_html r, result_url r)],
                dataset := dataset st @ [data],
                success_count := success_count st + 1,
                outdir := d\<rparr>)), None)"
  then show "same_json_files d0 (outdir (fst (step E st r)))"
    using save_single_txt_json_files [of d0 "outdir st" E data] by simp
next
  fix data e d
  assume "same_json_files d0 (outdir st)"
    and "save_single_txt E data (outdir st) = (Raise e, d)"
    and s: "step E st r =
         (st\<lparr>result_count := result_count st + 1,
             visited_urls := insert (result_url r) (visited_urls st),
             extract_calls := extract_calls st @ [(result_html r, result_url r)],
             dataset := dataset st @ [data],
             success_count := success_count st + 1,
             outdir := d\<rparr>, Some e)"
  then show "same_json_files d0 (outdir (fst (step E st r)))"
    using save_single_txt_json_files [of d0 "outdir st" E data] by simp
qed simp_all

lemma stream_loop_json_files:
  "same_json_files (outdir st) (outdir (fst (stream_loop E st rs)))"
proof (rule stream_loop_invariant [where P = "\<lambda>s. same_json_files (outdir st) (outdir s)"])
  show "same_json_files (outdir st) (outdir st)"
    by (simp add: same_json_files_def)
qed (rule step_json_files)

lemma json_load_decoder:
  "json_loads E' = json_loads E \<Longrightarrow> json_load E' f = json_load E f"
  by (auto simp: json_load_def split: option.splits content_of_file.splits)

lemma seed_file_decoder:
  "json_loads E' = json_loads E \<Longrightarrow> seed_file E' f V = seed_file E f V"
  using json_load_decoder [of E' E f] by (simp add: seed_file_def)

lemma load_file_same:
  "json_loads E' = json_loads E \<Longrightarrow> map_of d' n = map_of d n \<Longrightarrow>
   load_file E' d' n V = load_file E d n V"
  using seed_file_decoder [of E' E "map_of d n" V] by (simp add: load_file_def)

lemma seeded_same_json_files:
  assumes "json_loads E' = json_loads E" and "same_json_files d d'"
  shows "visited_urls (seeded E' d') = visited_urls (seeded E d)"
proof -
  have i: "{n \<in> fst ` set d'. endswith n (py_str ''.json'')} =
      {n \<in> fst ` set d. endswith n (py_str ''.json'')}"
    using assms(2) unfolding same_json_files_def by blast
  have "load_file E' d' n {} = load_file E d n {}"
    if "n \<in> {n \<in> fst ` set d. endswith n (py_str ''.json'')}" for n
    using assms that load_file_same [of E' E d' n d "{}"] by (simp add: same_json_files_def)
  then show ?thesis
    unfolding visited_urls_seeded_json i by (rule SUP_cong [OF refl])
qed

text \<open>
  Seeding from a directory to which an aggregate file has been written under a name that
  was not in the directory the run started in: nothing of the earlier history is lost.
\<close>

lemma seeded_keeps_history:
  assumes "json_loads E' = json_loads E" and "same_json_files d d0"
    and fresh: "json_name E \<notin> fst ` set d"
  shows "visited_urls (seeded E d) \<subseteq>
           visited_urls (seeded E' (AList.update (json_name E) (Json (dataset_json E ds)) d0))"
proof
  let ?d1 = "AList.update (json_name E) (Json (dataset_json E ds)) d0"
  fix u
  assume "u \<in> visited_urls (seeded E d)"
  then obtain n where n: "n \<in> fst ` set d" "endswith n (py_str ''.json'')"
    "u \<in> load_file E d n {}"
    unfolding visited_urls_seeded_json by blast
  from n(1) fresh have ne: "n \<noteq> json_name E" by blast
  from n(1,2) assms(2) have "map_of d0 n = map_of d n" "n \<in> fst ` set d0"
    by (simp_all add: same_json_files_def)
  with ne have m: "map_of ?d1 n = map_of d n" and i: "n \<in> fst ` set ?d1"
    by (simp_all add: update_conv' dom_update)
  have "load_file E' ?d1 n {} = load_file E d n {}"
    using assms(1) m by (rule load_file_same)
  moreover have "load_file E' ?d1 n {} \<subseteq> visited_urls (seeded E' ?d1)"
    unfolding visited_urls_seeded using i by (rule UN_upper)
  ultimately show "u \<in> visited_urls (seeded E' ?d1)"
    using n(3) by blast
qed

section \<open>A further pass over the same results\<close>

text \<open>
  A second pass over the same results, with the same parser, from a ledger that holds
  what the first pass started with and the URLs of all it captured, captures nothing.
\<close>

lemma second_pass_captures_nothing:
  assumes "find_title E2 = find_title E1" "find_content E2 = find_content E1"
  shows "stream_loop E1 s rs = (s', None) \<Longrightarrow> visited_urls s \<subseteq> visited_urls t \<Longrightarrow>
     url ` set (dataset s') \<subseteq> visited_urls t \<Longrightarrow>
     snd (stream_loop E2 t rs) = None \<and>
     dataset (fst (stream_loop E2 t rs)) = dataset t \<and>
     success_count (fst (stream_loop E2 t rs)) = success_count t \<and>
     outdir (fst (stream_loop E2 t rs)) = outdir t"
proof (induction rs arbitrary: s t)
  case Nil
  then show ?case by simp
next
  case (Cons r rs)
  obtain s1 x where s1: "step E1 s r = (s1, x)" by (cases "step E1 s r")
  with Cons.prems(1) have l: "stream_loop E1 s1 rs = (s', None)"
    by (cases x) simp_all
  have pre: "set (dataset s1) \<subseteq> set (dataset s')"
    using stream_loop_dataset_prefix [of s1 E1 rs] l by (auto dest: set_mono_prefix)
  have quiet: "result_url r \<in> visited_urls t \<or> \<not> passes_filter r \<or>
      extract_content E2 (result_html r) (result_url r) (now_iso E2 (result_count t + 1)) = None"
  proof (rule ccontr)
    assume "\<not> ?thesis"
    then have nv: "result_url r \<notin> visited_urls t" and pf: "passes_filter r"
      and ex: "extract_content E2 (result_html r) (result_url r) (now_iso E2 (result_count t + 1)) \<noteq> None"
      by auto
    from nv Cons.prems(2) have nvs: "result_url r \<notin> visited_urls s" by auto
    have "extract_content E1 (result_html r) (result_url r) (now_iso E1 (result_count s + 1)) \<noteq> None"
      using extract_content_same_parser [OF assms, of "result_html r" "result_url r"
          "now_iso E1 (result_count s + 1)" "now_iso E2 (result_count t + 1)"] ex
      by (cases "extract_content E1 (result_html r) (result_url r) (now_iso E1 (result_count s + 1))")
        simp_all
    from step_captured_url [OF pf nvs this] s1 have "result_url r \<in> url ` set (dataset s1)"
      by simp
    with pre Cons.prems(3) nv show False by auto
  qed
  obtain t1 y where t1: "step E2 t r = (t1, y)" by (cases "step E2 t r")
  from step_no_capture [OF quiet] t1 have y: "y = None" and same: "dataset t1 = dataset t"
    "success_count t1 = success_count t" "outdir t1 = outdir t"
    by simp_all
  have v: "visited_urls s1 \<subseteq> visited_urls t1" "visited_urls t \<subseteq> visited_urls t1"
    using step_visited_urls [of E1 s r] step_visited_urls [of E2 t r] s1 t1 Cons.prems(2)
    by auto
  from Cons.IH [OF l v(1)] Cons.prems(3) v(2)
  have "snd (stream_loop E2 t1 rs) = None \<and>
     dataset (fst (stream_loop E2 t1 rs)) = dataset t1 \<and>
     success_count (fst (stream_loop E2 t1 rs)) = success_count t1 \<and>
     outdir (fst (stream_loop E2 t1 rs)) = outdir t1"
    by blast
  with t1 y same show ?case by simp
qed

text \<open>
  In a pass that ends normally, over results of which no two that pass the filter share a
  URL, a result that passes the filter and whose URL the ledger did not hold at the start
  has been extracted: to nothing, or to a record of the run buffer.
\<close>

lemma first_pass_extracts:
  "stream_loop E s rs = (s', None) \<Longrightarrow> r \<in> set rs \<Longrightarrow> passes_filter r \<Longrightarrow>
   inj_on result_url {x \<in> set rs. passes_filter x} \<Longrightarrow> result_url r \<notin> visited_urls s \<Longrightarrow>
   extract_content E (result_html r) (result_url r) now = None \<or>
   result_url r \<in> url ` set (dataset s')"
proof (induction rs arbitrary: s)
  case Nil
  then show ?case by simp
next
  case (Cons x xs)
  obtain s1 y where s1: "step E s x = (s1, y)" by (cases "step E s x")
  with Cons.prems(1) have l: "stream_loop E s1 xs = (s', None)"
    by (cases y) simp_all
  have pre: "set (dataset s1) \<subseteq> set (dataset s')"
    using stream_loop_dataset_prefix [of s1 E xs] l by (auto dest: set_mono_prefix)
  show ?case
  proof (cases "x = r")
    case True
    show ?thesis
    proof (cases "extract_content E (result_html r) (result_url r) (now_iso E (result_count s + 1))")
      case None
      then show ?thesis using extract_content_time by blast
    next
      case (Some data)
      then have "result_url r \<in> url ` set (dataset (fst (step E s r)))"
        using step_captured_url [OF Cons.prems(3,5)] by simp
      with s1 True pre show ?thesis by auto
    qed
  next
    case False
    with Cons.prems(2) have r: "r \<in> set xs" by simp
    have inj: "inj_on result_url {x \<in> set xs. passes_filter x}"
      using Cons.prems(4) by (rule inj_on_subset) auto
    have "result_url r \<notin> visited_urls s1"
    proof
      assume "result_url r \<in> visited_urls s1"
      with step_visited_urls [of E s x] s1 Cons.prems(5)
      have "passes_filter x" "result_url x = result_url r"
        by (auto split: if_splits)
      with Cons.prems(3,4) r have "x = r"
        by (auto simp: inj_on_def)
      with False show False by simp
    qed
    from Cons.IH [OF l r Cons.prems(3) inj this] show ?thesis .
  qed
qed

text \<open>
  A further pass over results of the first, in any order, with the same parser, from a
  ledger that holds what the first pass started with and the URLs of all it captured,
  captures nothing.
\<close>

lemma rearranged_pass_captures_nothing:
  assumes "find_title E2 = find_title E1" "find_content E2 = find_content E1"
    and "stream_loop E1 s rs = (s', None)"
    and "inj_on result_url {x \<in> set rs. passes_filter x}"
    and "url ` set (dataset s') \<subseteq> visited_urls t0"
  shows "set rs2 \<subseteq> set rs \<Longrightarrow> visited_urls s \<subseteq> visited_urls t \<Longrightarrow>
     visited_urls t0 \<subseteq> visited_urls t \<Longrightarrow>
     snd (stream_loop E2 t rs2) = None \<and>
     dataset (fst (stream_loop E2 t rs2)) = dataset t \<and>
     success_count (fst (stream_loop E2 t rs2)) = success_count t \<and>
     outdir (fst (stream_loop E2 t rs2)) = outdir t"
proof (induction rs2 arbitrary: t)
  case Nil
  then show ?case by simp
next
  case (Cons r rs2)
  have quiet: "result_url r \<in> visited_urls t \<or> \<not> passes_filter r \<or>
      extract_content E2 (result_html r) (result_url r) (now_iso E2 (result_count t + 1)) = None"
  proof (rule ccontr)
    assume "\<not> ?thesis"
    then have nv: "result_url r \<notin> visited_urls t" and pf: "passes_filter r"
      and ex: "extract_content E2 (result_html r) (result_url r) (now_iso E2 (result_count t + 1)) \<noteq> None"
      by auto
    from nv Cons.prems(2) have nvs: "result_url r \<notin> visited_urls s" by auto
    from Cons.prems(1) have r: "r \<in> set rs" by simp
    from first_pass_extracts [OF assms(3) r pf assms(4) nvs, of "now_iso E2 (result_count t + 1)"]
    show False
    proof
      assume "extract_content E1 (result_html r) (result_url r) (now_iso E2 (result_count t + 1)) = None"
      from extract_content_same_parser [OF assms(1,2) this, of "now_iso E2 (result_count t + 1)"] ex
      show False by simp
    next
      assume "result_url r \<in> url ` set (dataset s')"
      with assms(5) Cons.prems(3) nv show False by auto
    qed
  qed
  obtain t1 y where t1: "step E2 t r = (t1, y)" by (cases "step E2 t r")
  from step_no_capture [OF quiet] t1 have y: "y = None" and same: "dataset t1 = dataset t"
    "success_count t1 = success_count t" "outdir t1 = outdir t"
    by simp_all
  have v: "visited_urls t \<subseteq> visited_urls t1"
    using step_visited_urls [of E2 t r] t1 by auto
  from Cons.prems(1) have sub: "set rs2 \<subseteq> set rs" by simp
  from Cons.IH [OF sub] Cons.prems(2,3) v
  have "snd (stream_loop E2 t1 rs2) = None \<and>
     dataset (fst (stream_loop E2 t1 rs2)) = dataset t1 \<and>
     success_count (fst (stream_loop E2 t1 rs2)) = success_count t1 \<and>
     outdir (fst (stream_loop E2 t1 rs2)) = outdir t1"
    by blast
  with t1 y same show ?case by simp
qed

section \<open>Concrete runs\<close>

lemma demo_write_ok [simp]: "write_error demo_env n f = None"
  by (simp add: demo_env_def)

lemma demo_passes [simp]:
  "passes_filter demo_hi" "passes_filter demo_blank" "\<not> passes_filter demo_failed"
  by (simp_all add: run_defs)

lemma demo_loop_hi:
  "stream_loop demo_env (seeded demo_env []) [demo_hi] =
   (\<lparr>dataset = [demo_hi_article],
      visited_urls = {py_str ''/news/1.shtml''},
      outdir = [(py_str ''Hi.txt'', Text (py_str ''Hi'' @ [10, 10] @ py_str ''body''))],
      result_count = 1, success_count = 1, skip_count = 0, stdout = [],
      extract_calls = [(result_html demo_hi, py_str ''/news/1.shtml'')]\<rparr>,
    None)"
  by (simp add: run_defs)

lemma demo_run_hi:
  "deep_crawl_nur demo_env [] [demo_hi] =
   (\<lparr>dataset = [demo_hi_article],
      visited_urls = {py_str ''/news/1.shtml''},
      outdir = [(py_str ''Hi.txt'', Text (py_str ''Hi'' @ [10, 10] @ py_str ''body'')),
                (json_name demo_env, Json (dataset_json demo_env [demo_hi_article]))],
      result_count = 1, success_count = 1, skip_count = 0,
      stdout = [Summary 1 1 0, DatasetSaved (Some (output_dir @ py_str ''/'' @ json_name demo_env))],
      extract_calls = [(result_html demo_hi, py_str ''/news/1.shtml'')]\<rparr>,
    Return [demo_hi_article])"
  using deep_crawl_nur_saved [OF demo_loop_hi] by (simp add: json_name_def py_str_def)

lemma demo_loop_hi_yo:
  "stream_loop demo_env (seeded demo_env []) [demo_hi, demo_yo] =
   (\<lparr>dataset = [demo_hi_article, demo_yo_article],
      visited_urls = {py_str ''/news/1.shtml'', py_str ''/news/4.shtml''},
      outdir = [(py_str ''Hi.txt'', Text (py_str ''Hi'' @ [10, 10] @ py_str ''body'')),
                (py_str ''Yo.txt'', Text (py_str ''Yo'' @ [10, 10]))],
      result_count = 2, success_count = 2, skip_count = 0, stdout = [],
      extract_calls = [(result_html demo_hi, py_str ''/news/1.shtml''),
                       (result_html demo_yo, py_str ''/news/4.shtml'')]\<rparr>,
    None)"
  by (simp add: run_defs insert_commute)

lemma demo_run_hi_yo:
  "deep_crawl_nur demo_env [] [demo_hi, demo_yo] =
   (\<lparr>dataset = [demo_hi_article, demo_yo_article],
      visited_urls = {py_str ''/news/1.shtml'', py_str ''/news/4.shtml''},
      outdir = [(py_str ''Hi.txt'', Text (py_str ''Hi'' @ [10, 10] @ py_str ''body'')),
                (py_str ''Yo.txt'', Text (py_str ''Yo'' @ [10, 10])),
                (json_name demo_env, Json (dataset_json demo_env [demo_hi_article, demo_yo_article]))],
      result_count = 2, success_count = 2, skip_count = 0,
      stdout = [Summary 2 2 0, DatasetSaved (Some (output_dir @ py_str ''/'' @ json_name demo_env))],
      extract_calls = [(result_html demo_hi, py_str ''/news/1.shtml''),
                       (result_html demo_yo, py_str ''/news/4.shtml'')]\<rparr>,
    Return [demo_hi_article, demo_yo_article])"
  using deep_crawl_nur_saved [OF demo_loop_hi_yo] by (simp add: json_name_def py_str_def)

lemma demo_hi_yo_distinct:
  "inj_on result_url {x \<in> set [demo_hi, demo_yo]. passes_filter x}"
  by (auto simp: inj_on_def demo_hi_def demo_yo_def demo_page_def py_str_def)

lemma demo_loop_blank:
  "stream_loop demo_env (seeded demo_env []) [demo_blank] =
   (\<lparr>dataset = [], visited_urls = {py_str ''/news/2.shtml''}, outdir = [],
      result_count = 1, success_count = 0, skip_count = 0, stdout = [],
      extract_calls = [(Some [10], py_str ''/news/2.shtml'')]\<rparr>,
    None)"
  by (simp add: run_defs)

lemma demo_run_blank:
  "deep_crawl_nur demo_env [] [demo_blank] =
   (\<lparr>dataset = [], visited_urls = {py_str ''/news/2.shtml''}, outdir = [],
      result_count = 1, success_count = 0, skip_count = 0,
      stdout = [Summary 1 0 0, NoNewData, DatasetSaved None],
      extract_calls = [(Some [10], py_str ''/news/2.shtml'')]\<rparr>,
    Return [])"
  using deep_crawl_nur_empty [OF demo_loop_blank] by simp

lemma demo_loop_failed:
  "stream_loop demo_env (seeded demo_env []) [demo_failed] =
   (\<lparr>dataset = [], visited_urls = {}, outdir = [],
      result_count = 1, success_count = 0, skip_count = 0, stdout = [],
      extract_calls = []\<rparr>, None)"
  by (simp add: run_defs)

lemma demo_run_failed:
  "deep_crawl_nur demo_env [] [demo_failed] =
   (\<lparr>dataset = [], visited_urls = {}, outdir = [],
      result_count = 1, success_count = 0, skip_count = 0,
      stdout = [Summary 1 0 0, NoNewData, DatasetSaved None],
      extract_calls = []\<rparr>, Return [])"
  using deep_crawl_nur_empty [OF demo_loop_failed] by simp

lemma demo_run_nothing:
  "deep_crawl_nur demo_env [] [] =
   (\<lparr>dataset = [], visited_urls = {}, outdir = [],
      result_count = 0, success_count = 0, skip_count = 0,
      stdout = [Summary 0 0 0, NoNewData, DatasetSaved None],
      extract_calls = []\<rparr>, Return [])"
  by (simp add: run_defs)

lemma demo_untitled_extracted:
  "passes_filter demo_untitled"
  "extract_content demo_env (result_html demo_untitled) (result_url demo_untitled)
     (now_iso demo_env (result_count (seeded demo_env []) + 1)) = Some demo_untitled_article"
  by (simp_all add: run_defs demo_untitled_def demo_untitled_article_def)

lemma demo_hi_extracted:
  "extract_content demo_env (result_html demo_hi) (result_url demo_hi)
     (now_iso demo_env (result_count (seeded demo_env []) + 1)) = Some demo_hi_article"
  by (simp add: run_defs)

lemma demo_partial_seeded:
  "visited_urls (load_existing_urls demo_env (init demo_partial)) = {py_str ''/news/a.shtml''}"
  "snd (seed_file demo_env (map_of demo_partial (py_str ''nur_dataset_20231231_000000.json'')) {}) =
     Some KeyError"
  by (simp_all add: load_existing_urls_def load_file_def seed_file_def json_load_def init_def
      demo_partial_def demo_env_def endswith_def suffix_to_prefix py_str_def)

lemma demo_history_seeded:
  "visited_urls (load_existing_urls demo_env (init demo_history)) = {py_str ''/news/1.shtml''}"
  by (simp add: load_existing_urls_def load_file_def seed_file_def json_load_def init_def
      demo_history_def demo_env_def endswith_def suffix_to_prefix py_str_def)

lemma demo_run_clash:
  "deep_crawl_nur demo_env demo_clash [demo_hi, demo_yo] =
   (\<lparr>dataset = [demo_yo_article],
      visited_urls = {py_str ''/news/1.shtml'', py_str ''/news/4.shtml''},
      outdir = [(json_name demo_env, Json (dataset_json demo_env [demo_yo_article])),
                (py_str ''Yo.txt'', Text (py_str ''Yo'' @ [10, 10]))],
      result_count = 2, success_count = 1, skip_count = 1,
      stdout = [Summary 2 1 1, DatasetSaved (Some (output_dir @ py_str ''/'' @ json_name demo_env))],
      extract_calls = [(result_html demo_yo, py_str ''/news/4.shtml'')]\<rparr>,
    Return [demo_yo_article])"
  by (simp add: run_defs load_file_def seed_file_def json_load_def insert_commute)

lemma demo_run_clash_again:
  "deep_crawl_nur demo_env
     [(json_name demo_env, Json (dataset_json demo_env [demo_yo_article])),
      (py_str ''Yo.txt'', Text (py_str ''Yo'' @ [10, 10]))]
     [demo_hi, demo_yo] =
   (\<lparr>dataset = [demo_hi_article],
      visited_urls = {py_str ''/news/1.shtml'', py_str ''/news/4.shtml''},
      outdir = [(json_name demo_env, Json (dataset_json demo_env [demo_hi_article])),
                (py_str ''Yo.txt'', Text (py_str ''Yo'' @ [10, 10])),
                (py_str ''Hi.txt'', Text (py_str ''Hi'' @ [10, 10] @ py_str ''body''))],
      result_count = 2, success_count = 1, skip_count = 1,
      stdout = [Summary 2 1 1, DatasetSaved (Some (output_dir @ py_str ''/'' @ json_name demo_env))],
      extract_calls = [(result_html demo_hi, py_str ''/news/1.shtml'')]\<rparr>,
    Return [demo_hi_article])"
  by (simp add: run_defs load_file_def seed_file_def json_load_def insert_commute)

section \<open>Deduplication within a run\<close>

text \<open>
  C1. In every state in which the loop is left, no URL has been handed to the extractor
  twice and no two records of the run buffer have the same URL. Once a result that passes
  the filter has been processed, a later result with its URL that passes the filter is
  counted as a duplicate and changes nothing else: no extraction, no record, no file.
\<close>

theorem duplicate_url_extracted_once:
  "distinct (map snd (extract_calls (fst (stream_loop E (seeded E d) rs)))) \<and>
   distinct (map url (dataset (fst (stream_loop E (seeded E d) rs)))) \<and>
   (passes_filter p \<longrightarrow> passes_filter q \<longrightarrow> result_url q = result_url p \<longrightarrow>
    stream_loop E (seeded E d) (xs @ p # ys) = (st, None) \<longrightarrow>
      step E st q =
        (st\<lparr>result_count := result_count st + 1, skip_count := skip_count st + 1\<rparr>, None))"
proof -
  have inv: "ledger_inv E (fst (stream_loop E (seeded E d) rs))"
    by (rule ledger_inv_loop)
  have later: "step E st q =
        (st\<lparr>result_count := result_count st + 1, skip_count := skip_count st + 1\<rparr>, None)"
    if p: "passes_filter p" and q: "passes_filter q" and u: "result_url q = result_url p"
      and l: "stream_loop E (seeded E d) (xs @ p # ys) = (st, None)"
  proof -
    have "result_url p \<in> visited_urls st"
      using stream_loop_visited_urls [OF l] p by auto
    with u q show ?thesis by (simp add: step_duplicate)
  qed
  from inv later show ?thesis by (simp add: ledger_inv_def)
qed

theorem duplicate_url_extracted_once_witness:
  "passes_filter demo_hi \<and>
   snd (stream_loop demo_env (seeded demo_env []) ([] @ demo_hi # [])) = None \<and>
   step demo_env (fst (stream_loop demo_env (seeded demo_env []) [demo_hi])) demo_hi =
     ((fst (stream_loop demo_env (seeded demo_env []) [demo_hi]))
        \<lparr>result_count := 2, skip_count := 1\<rparr>, None) \<and>
   length (dataset (fst (stream_loop demo_env (seeded demo_env []) [demo_hi, demo_hi]))) = 1 \<and>
   skip_count (fst (stream_loop demo_env (seeded demo_env []) [demo_hi, demo_hi])) = 1"
proof -
  let ?st = "fst (stream_loop demo_env (seeded demo_env []) [demo_hi])"
  have l: "stream_loop demo_env (seeded demo_env []) ([] @ demo_hi # []) = (?st, None)"
    by (simp only: append_Nil demo_loop_hi fst_conv)
  have s: "step demo_env ?st demo_hi =
      (?st\<lparr>result_count := result_count ?st + 1, skip_count := skip_count ?st + 1\<rparr>, None)"
    using duplicate_url_extracted_once [of demo_env "[]" _ demo_hi demo_hi "[]" "[]" ?st] l
    by (simp del: stream_loop.simps)
  have "stream_loop demo_env (seeded demo_env []) ([demo_hi] @ [demo_hi]) = step demo_env ?st demo_hi"
    by (rule stream_loop_snoc) (simp only: demo_loop_hi fst_conv)
  then have two: "stream_loop demo_env (seeded demo_env []) [demo_hi, demo_hi] = step demo_env ?st demo_hi"
    by (simp only: append_Cons append_Nil)
  show ?thesis
    unfolding two s by (simp del: stream_loop.simps add: demo_loop_hi)
qed

section \<open>The filter\<close>

text \<open>
  C2. Every call of the extractor made by the loop has the markup and the URL of a result
  of the stream whose success flag is set, whose markup is present and non-empty, and
  whose URL contains \<open>/news/\<close> and ends with \<open>.shtml\<close>. A result that fails one of these
  conditions adds no call: its iteration only counts the page.
\<close>

theorem extractor_called_only_after_filter:
  "((h, u) \<in> set (extract_calls (fst (stream_loop E (seeded E d) rs))) \<longrightarrow>
      (\<exists>r \<in> set rs. result_html r = h \<and> result_url r = u \<and> result_success r \<and>
         (\<exists>m. h = Some m \<and> m \<noteq> []) \<and>
         sublist (py_str ''/news/'') u \<and> suffix (py_str ''.shtml'') u)) \<and>
   (\<not> result_success r' \<or> result_html r' = None \<or> result_html r' = Some [] \<or>
    \<not> sublist (py_str ''/news/'') (result_url r') \<or>
    \<not> suffix (py_str ''.shtml'') (result_url r') \<longrightarrow>
      step E st r' = (page_progress (st\<lparr>result_count := result_count st + 1\<rparr>), None) \<and>
      extract_calls (fst (step E st r')) = extract_calls st)"
proof -
  have calls: "\<exists>r \<in> set rs. result_html r = h \<and> result_url r = u \<and> result_success r \<and>
         (\<exists>m. h = Some m \<and> m \<noteq> []) \<and>
         sublist (py_str ''/news/'') u \<and> suffix (py_str ''.shtml'') u"
    if c: "(h, u) \<in> set (extract_calls (fst (stream_loop E (seeded E d) rs)))"
  proof -
    from stream_loop_extract_calls [OF c]
    obtain r where "r \<in> set rs" "passes_filter r" "h = result_html r" "u = result_url r"
      by auto
    then show ?thesis
      by (auto simp: passes_filter_def truthy_def endswith_def split: option.splits)
  qed
  have rej: "step E st r' = (page_progress (st\<lparr>result_count := result_count st + 1\<rparr>), None) \<and>
      extract_calls (fst (step E st r')) = extract_calls st"
    if "\<not> result_success r' \<or> result_html r' = None \<or> result_html r' = Some [] \<or>
      \<not> sublist (py_str ''/news/'') (result_url r') \<or>
      \<not> suffix (py_str ''.shtml'') (result_url r')"
  proof -
    from that have "\<not> passes_filter r'"
      by (auto simp: passes_filter_def truthy_def endswith_def)
    then show ?thesis by (simp add: step_reject)
  qed
  from calls rej show ?thesis by blast
qed

theorem extractor_called_only_after_filter_witness:
  "(result_html demo_hi, result_url demo_hi) \<in>
     set (extract_calls (fst (stream_loop demo_env (seeded demo_env []) [demo_failed, demo_hi]))) \<and>
   result_success demo_hi \<and> sublist (py_str ''/news/'') (result_url demo_hi) \<and>
   suffix (py_str ''.shtml'') (result_url demo_hi) \<and>
   \<not> result_success demo_failed \<and>
   extract_calls (fst (step demo_env (seeded demo_env []) demo_failed)) = []"
proof -
  have s: "step demo_env (seeded demo_env []) demo_failed =
      ((seeded demo_env [])\<lparr>result_count := 1\<rparr>, None)"
    by (simp add: step_reject page_progress_def)
  have l: "(result_html demo_hi, result_url demo_hi) \<in>
     set (extract_calls (fst (stream_loop demo_env (seeded demo_env []) [demo_failed, demo_hi])))"
    by (simp add: s) (simp add: run_defs)
  show ?thesis
    using l extractor_called_only_after_filter [of "result_html demo_hi" "result_url demo_hi"
        demo_env "[]" "[demo_failed, demo_hi]" demo_failed "seeded demo_env []"]
    by (auto simp: demo_failed_def demo_hi_def demo_page_def)
qed

section \<open>The extractor\<close>

text \<open>
  C3. On non-empty markup \<open>extract_content\<close> returns no record exactly when the extracted
  title and the extracted body are both empty; on empty or absent markup it returns no
  record without parsing. A record it returns carries the extracted title and body, of
  which at least one is non-empty, the URL, the time, and the length of the body.
\<close>

theorem extract_content_none_iff:
  "(m \<noteq> [] \<longrightarrow>
      (extract_content E (Some m) u now = None \<longleftrightarrow>
         extracted_title E m = [] \<and> extracted_content E m = [])) \<and>
   extract_content E (Some []) u now = None \<and>
   extract_content E None u now = None \<and>
   (extract_content E h u now = Some a \<longrightarrow>
      (\<exists>m'. h = Some m' \<and> m' \<noteq> [] \<and>
         a = \<lparr>url = u, title = extracted_title E m', content = extracted_content E m',
               crawl_time = now, content_length = length (extracted_content E m')\<rparr> \<and>
         (title a \<noteq> [] \<or> content a \<noteq> [])))"
  by (auto simp: extract_content_def split: option.splits if_splits)

theorem extract_content_none_iff_witness:
  "py_str ''Hi'' \<noteq> [] \<and>
   extracted_title demo_env (py_str ''Hi'') \<noteq> [] \<and>
   extract_content demo_env (Some (py_str ''Hi'')) (py_str ''/news/1.shtml'') (py_str ''now'') \<noteq> None \<and>
   [10] \<noteq> ([] :: ustr) \<and>
   extracted_title demo_env [10] = [] \<and> extracted_content demo_env [10] = [] \<and>
   extract_content demo_env (Some [10]) (py_str ''/news/1.shtml'') (py_str ''now'') = None"
proof -
  have hi: "py_str ''Hi'' \<noteq> []" "extracted_title demo_env (py_str ''Hi'') \<noteq> []"
    by (simp_all add: extracted_title_def demo_env_def py_str_def)
  have nl: "extracted_title demo_env [10] = []" "extracted_content demo_env [10] = []"
    by (simp_all add: extracted_title_def extracted_content_def demo_env_def)
  show ?thesis
    using hi nl
      extract_content_none_iff [of "py_str ''Hi''" demo_env "py_str ''/news/1.shtml''" "py_str ''now''"]
      extract_content_none_iff [of "[10]" demo_env "py_str ''/news/1.shtml''" "py_str ''now''"]
    by simp
qed

section \<open>Finalization\<close>

text \<open>
  C4. When the loop has ended normally: with an empty run buffer the run returns and
  leaves the directory as the loop left it; with a non-empty run buffer, and the write
  succeeding, the directory differs from the one the loop left in the aggregate file
  alone, whose \<open>total_articles\<close> is the length of its \<open>articles\<close>, which has one entry
  for each record of the run buffer, each with a \<open>content_length\<close> that is the length of
  its \<open>content\<close>.
\<close>

theorem aggregate_file_integrity:
  assumes "stream_loop E (seeded E d) rs = (st, None)"
  shows "(dataset st = [] \<longrightarrow>
           snd (deep_crawl_nur E d rs) = Return [] \<and>
           outdir (fst (deep_crawl_nur E d rs)) = outdir st) \<and>
         (dataset st \<noteq> [] \<longrightarrow>
          write_error E (json_name E) (Json (dataset_json E (dataset st))) = None \<longrightarrow>
           (\<exists>doc arts.
              map_of (outdir (fst (deep_crawl_nur E d rs))) =
                (map_of (outdir st))(json_name E \<mapsto> Json doc) \<and>
              fst ` set (outdir (fst (deep_crawl_nur E d rs))) =
                insert (json_name E) (fst ` set (outdir st)) \<and>
              py_getitem doc (py_str ''articles'') = Return (JArr arts) \<and>
              py_getitem doc (py_str ''total_articles'') = Return (JInt (int (length arts))) \<and>
              length arts = length (dataset st) \<and>
              (\<forall>a \<in> set arts. \<exists>c.
                 py_getitem a (py_str ''content'') = Return (JStr c) \<and>
                 py_getitem a (py_str ''content_length'') = Return (JInt (int (length c))))))"
proof -
  have inv: "ledger_inv E st"
    using ledger_inv_loop [of E d rs] assms by simp
  have len: "\<forall>a \<in> set (dataset st). content_length a = length (content a)"
    using inv by (simp add: ledger_inv_def)
  have empty: "snd (deep_crawl_nur E d rs) = Return [] \<and>
           outdir (fst (deep_crawl_nur E d rs)) = outdir st" if "dataset st = []"
    using deep_crawl_nur_empty [OF assms that] by simp
  have saved: "\<exists>doc arts.
              map_of (outdir (fst (deep_crawl_nur E d rs))) =
                (map_of (outdir st))(json_name E \<mapsto> Json doc) \<and>
              fst ` set (outdir (fst (deep_crawl_nur E d rs))) =
                insert (json_name E) (fst ` set (outdir st)) \<and>
              py_getitem doc (py_str ''articles'') = Return (JArr arts) \<and>
              py_getitem doc (py_str ''total_articles'') = Return (JInt (int (length arts))) \<and>
              length arts = length (dataset st) \<and>
              (\<forall>a \<in> set arts. \<exists>c.
                 py_getitem a (py_str ''content'') = Return (JStr c) \<and>
                 py_getitem a (py_str ''content_length'') = Return (JInt (int (length c))))"
    if ne: "dataset st \<noteq> []"
      and w: "write_error E (json_name E) (Json (dataset_json E (dataset st))) = None"
  proof (intro exI conjI)
    show "map_of (outdir (fst (deep_crawl_nur E d rs))) =
        (map_of (outdir st))(json_name E \<mapsto> Json (dataset_json E (dataset st)))"
      using deep_crawl_nur_saved [OF assms ne w] by (simp add: update_conv')
    show "fst ` set (outdir (fst (deep_crawl_nur E d rs))) =
        insert (json_name E) (fst ` set (outdir st))"
      using deep_crawl_nur_saved [OF assms ne w] by (simp add: dom_update)
    show "py_getitem (dataset_json E (dataset st)) (py_str ''articles'') =
        Return (JArr (map article_json (dataset st)))"
      by (rule py_getitem_dataset_json)
    show "py_getitem (dataset_json E (dataset st)) (py_str ''total_articles'') =
        Return (JInt (int (length (map article_json (dataset st)))))"
      by (simp add: py_getitem_dataset_json)
    show "length (map article_json (dataset st)) = length (dataset st)" by simp
    show "\<forall>a \<in> set (map article_json (dataset st)). \<exists>c.
        py_getitem a (py_str ''content'') = Return (JStr c) \<and>
        py_getitem a (py_str ''content_length'') = Return (JInt (int (length c)))"
      using len by (auto simp: py_getitem_article_json)
  qed
  from empty saved show ?thesis by blast
qed

theorem aggregate_file_integrity_witness:
  "stream_loop demo_env (seeded demo_env []) [demo_blank] =
     (fst (stream_loop demo_env (seeded demo_env []) [demo_blank]), None) \<and>
   dataset (fst (stream_loop demo_env (seeded demo_env []) [demo_blank])) = [] \<and>
   snd (deep_crawl_nur demo_env [] [demo_blank]) = Return [] \<and>
   outdir (fst (deep_crawl_nur demo_env [] [demo_blank])) = [] \<and>
   stream_loop demo_env (seeded demo_env []) [demo_hi] =
     (fst (stream_loop demo_env (seeded demo_env []) [demo_hi]), None) \<and>
   dataset (fst (stream_loop demo_env (seeded demo_env []) [demo_hi])) \<noteq> [] \<and>
   (\<exists>doc arts.
      map_of (outdir (fst (deep_crawl_nur demo_env [] [demo_hi]))) (json_name demo_env) =
        Some (Json doc) \<and>
      py_getitem doc (py_str ''articles'') = Return (JArr arts) \<and>
      py_getitem doc (py_str ''total_articles'') = Return (JInt 1) \<and>
      (\<forall>a \<in> set arts. \<exists>c.
                 py_getitem a (py_str ''content'') = Return (JStr c) \<and>
                 py_getitem a (py_str ''content_length'') = Return (JInt (int (length c)))))"
proof -
  let ?st = "fst (stream_loop demo_env (seeded demo_env []) [demo_hi])"
  have l: "stream_loop demo_env (seeded demo_env []) [demo_hi] = (?st, None)"
    by (simp only: demo_loop_hi fst_conv)
  have ne: "dataset ?st \<noteq> []"
    by (simp only: demo_loop_hi fst_conv) simp
  have n: "length (dataset ?st) = 1"
    by (simp only: demo_loop_hi fst_conv) simp
  from aggregate_file_integrity [OF l] ne
  obtain doc arts where
    "map_of (outdir (fst (deep_crawl_nur demo_env [] [demo_hi]))) =
       (map_of (outdir ?st))(json_name demo_env \<mapsto> Json doc)"
    "py_getitem doc (py_str ''articles'') = Return (JArr arts)"
    "py_getitem doc (py_str ''total_articles'') = Return (JInt (int (length arts)))"
    "length arts = length (dataset ?st)"
    "\<forall>a \<in> set arts. \<exists>c.
                 py_getitem a (py_str ''content'') = Return (JStr c) \<and>
                 py_getitem a (py_str ''content_length'') = Return (JInt (int (length c)))"
    by (auto simp del: stream_loop.simps)
  moreover
  let ?sb = "fst (stream_loop demo_env (seeded demo_env []) [demo_blank])"
  have lb: "stream_loop demo_env (seeded demo_env []) [demo_blank] = (?sb, None)"
    by (simp only: demo_loop_blank fst_conv)
  have eb: "dataset ?sb = []" "outdir ?sb = []"
    by (simp_all only: demo_loop_blank fst_conv) simp_all
  from aggregate_file_integrity [OF lb] eb
  have "snd (deep_crawl_nur demo_env [] [demo_blank]) = Return []"
    "outdir (fst (deep_crawl_nur demo_env [] [demo_blank])) = []"
    by (simp_all del: stream_loop.simps)
  ultimately show ?thesis
    using l ne n lb eb
    by (intro conjI exI [of _ doc] exI [of _ arts]) (simp_all del: stream_loop.simps)
qed

section \<open>The incremental writer\<close>

text \<open>
  C5. For a record with a non-empty title, and the write succeeding, \<open>save_single_txt\<close>
  changes the directory at one name only: the title, cut to its first 50 characters, each
  of \<open>< > : " / \ | ? *\<close> replaced by an underscore, followed by \<open>.txt\<close>; the file holds the
  title, two newlines, and the body. For a record with an empty title it writes nothing.
  The iteration of the loop that extracts a record appends it to the run buffer and hands
  it to the writer: with a title, the directory changes at that one name, to that file;
  without a title, the directory stays as it is. An iteration that ends normally without
  a new record writes no file. The run buffer only grows, and a run that returns has every
  record of the run buffer in the \<open>articles\<close> of its aggregate file.
\<close>

theorem single_txt_artifact:
  "(title data \<noteq> [] \<longrightarrow>
    write_error E (safe_title (title data) @ py_str ''.txt'')
      (Text (title data @ [10, 10] @ content data)) = None \<longrightarrow>
      (\<exists>d'. save_single_txt E data d =
           (Return (Some (safe_title (title data) @ py_str ''.txt'')), d') \<and>
         map_of d' = (map_of d)(safe_title (title data) @ py_str ''.txt'' \<mapsto>
           Text (title data @ [10, 10] @ content data)) \<and>
         fst ` set d' = insert (safe_title (title data) @ py_str ''.txt'') (fst ` set d))) \<and>
   length (safe_title (title data)) = min 50 (length (title data)) \<and>
   (\<forall>i < length (safe_title (title data)).
      safe_title (title data) ! i =
        (if title data ! i \<in> {60, 62, 58, 34, 47, 92, 124, 63, 42} then 95 else title data ! i)) \<and>
   (title data = [] \<longrightarrow> save_single_txt E data d = (Return None, d)) \<and>
   (title data = [] \<longrightarrow> passes_filter r \<longrightarrow> result_url r \<notin> visited_urls st \<longrightarrow>
    extract_content E (result_html r) (result_url r) (now_iso E (result_count st + 1)) = Some data \<longrightarrow>
      snd (step E st r) = None \<and>
      dataset (fst (step E st r)) = dataset st @ [data] \<and>
      outdir (fst (step E st r)) = outdir st) \<and>
   (title data \<noteq> [] \<longrightarrow> passes_filter r \<longrightarrow> result_url r \<notin> visited_urls st \<longrightarrow>
    extract_content E (result_html r) (result_url r) (now_iso E (result_count st + 1)) = Some data \<longrightarrow>
    write_error E (safe_title (title data) @ py_str ''.txt'')
      (Text (title data @ [10, 10] @ content data)) = None \<longrightarrow>
      snd (step E st r) = None \<and>
      dataset (fst (step E st r)) = dataset st @ [data] \<and>
      map_of (outdir (fst (step E st r))) =
        (map_of (outdir st))(safe_title (title data) @ py_str ''.txt'' \<mapsto>
           Text (title data @ [10, 10] @ content data)) \<and>
      fst ` set (outdir (fst (step E st r))) =
        insert (safe_title (title data) @ py_str ''.txt'') (fst ` set (outdir st))) \<and>
   (snd (step E st r) = None \<longrightarrow> dataset (fst (step E st r)) = dataset st \<longrightarrow>
      outdir (fst (step E st r)) = outdir st) \<and>
   prefix (dataset st) (dataset (fst (stream_loop E st rs))) \<and>
   (deep_crawl_nur E dir rs = (st', Return ds) \<longrightarrow> a \<in> set ds \<longrightarrow>
      (\<exists>doc arts. map_of (outdir st') (json_name E) = Some (Json doc) \<and>
         py_getitem doc (py_str ''articles'') = Return (JArr arts) \<and>
         article_json a \<in> set arts))"
proof -
  have titled: "\<exists>d'. save_single_txt E data d =
           (Return (Some (safe_title (title data) @ py_str ''.txt'')), d') \<and>
         map_of d' = (map_of d)(safe_title (title data) @ py_str ''.txt'' \<mapsto>
           Text (title data @ [10, 10] @ content data)) \<and>
         fst ` set d' = insert (safe_title (title data) @ py_str ''.txt'') (fst ` set d)"
    if "title data \<noteq> []"
      "write_error E (safe_title (title data) @ py_str ''.txt'')
        (Text (title data @ [10, 10] @ content data)) = None"
    using save_single_txt_titled [OF that, of d] by (simp add: update_conv' dom_update)
  have untitled_step: "snd (step E st r) = None \<and>
      dataset (fst (step E st r)) = dataset st @ [data] \<and>
      outdir (fst (step E st r)) = outdir st"
    if t: "title data = []" and pf: "passes_filter r" and nv: "result_url r \<notin> visited_urls st"
      and ex: "extract_content E (result_html r) (result_url r) (now_iso E (result_count st + 1)) = Some data"
    using step_capture [OF pf nv ex] save_single_txt_untitled [OF t, of E "outdir st"]
    by simp
  have titled_step: "snd (step E st r) = None \<and>
      dataset (fst (step E st r)) = dataset st @ [data] \<and>
      map_of (outdir (fst (step E st r))) =
        (map_of (outdir st))(safe_title (title data) @ py_str ''.txt'' \<mapsto>
           Text (title data @ [10, 10] @ content data)) \<and>
      fst ` set (outdir (fst (step E st r))) =
        insert (safe_title (title data) @ py_str ''.txt'') (fst ` set (outdir st))"
    if t: "title data \<noteq> []" and pf: "passes_filter r" and nv: "result_url r \<notin> visited_urls st"
      and ex: "extract_content E (result_html r) (result_url r) (now_iso E (result_count st + 1)) = Some data"
      and w: "write_error E (safe_title (title data) @ py_str ''.txt'')
        (Text (title data @ [10, 10] @ content data)) = None"
    using step_capture [OF pf nv ex] save_single_txt_titled [OF t w, of "outdir st"]
    by (simp add: update_conv' dom_update)
  have agg: "\<exists>doc arts. map_of (outdir st') (json_name E) = Some (Json doc) \<and>
         py_getitem doc (py_str ''articles'') = Return (JArr arts) \<and>
         article_json a \<in> set arts"
    if run: "deep_crawl_nur E dir rs = (st', Return ds)" and a: "a \<in> set ds"
    using run
  proof (cases rule: deep_crawl_nur_ReturnE)
    case (empty st0)
    with a show ?thesis by simp
  next
    case (saved st0)
    with a show ?thesis
      by (intro exI [of _ "dataset_json E ds"] exI [of _ "map article_json ds"])
         (simp add: update_conv' py_getitem_dataset_json)
  qed
  show ?thesis
    using titled untitled_step titled_step agg safe_title_length [of "title data"]
      safe_title_nth [of _ "title data"] save_single_txt_untitled [of data E d]
      stream_loop_dataset_prefix [of st E rs] step_without_record [of E st r]
    by (intro conjI impI allI) blast+
qed

theorem single_txt_artifact_witness:
  "title demo_hi_article \<noteq> [] \<and>
   save_single_txt demo_env demo_hi_article [] =
     (Return (Some (py_str ''Hi.txt'')),
      [(py_str ''Hi.txt'', Text (py_str ''Hi'' @ [10, 10] @ py_str ''body''))]) \<and>
   safe_title (py_str ''a/b:c'') = py_str ''a_b_c'' \<and>
   passes_filter demo_hi \<and>
   result_url demo_hi \<notin> visited_urls (seeded demo_env []) \<and>
   snd (step demo_env (seeded demo_env []) demo_hi) = None \<and>
   dataset (fst (step demo_env (seeded demo_env []) demo_hi)) = [demo_hi_article] \<and>
   map_of (outdir (fst (step demo_env (seeded demo_env []) demo_hi))) (py_str ''Hi.txt'') =
     Some (Text (py_str ''Hi'' @ [10, 10] @ py_str ''body'')) \<and>
   fst ` set (outdir (fst (step demo_env (seeded demo_env []) demo_hi))) = {py_str ''Hi.txt''} \<and>
   title demo_untitled_article = [] \<and>
   save_single_txt demo_env demo_untitled_article [] = (Return None, []) \<and>
   passes_filter demo_untitled \<and>
   result_url demo_untitled \<notin> visited_urls (seeded demo_env []) \<and>
   snd (step demo_env (seeded demo_env []) demo_untitled) = None \<and>
   dataset (fst (step demo_env (seeded demo_env []) demo_untitled)) = [demo_untitled_article] \<and>
   outdir (fst (step demo_env (seeded demo_env []) demo_untitled)) = [] \<and>
   snd (step demo_env (seeded demo_env []) demo_blank) = None \<and>
   dataset (fst (step demo_env (seeded demo_env []) demo_blank)) = [] \<and>
   outdir (fst (step demo_env (seeded demo_env []) demo_blank)) = [] \<and>
   deep_crawl_nur demo_env [] [demo_hi] =
     (fst (deep_crawl_nur demo_env [] [demo_hi]), Return [demo_hi_article]) \<and>
   (\<exists>doc arts. map_of (outdir (fst (deep_crawl_nur demo_env [] [demo_hi]))) (json_name demo_env) =
        Some (Json doc) \<and>
      py_getitem doc (py_str ''articles'') = Return (JArr arts) \<and>
      article_json demo_hi_article \<in> set arts)"
proof -
  let ?s = "seeded demo_env []"
  have t: "title demo_hi_article \<noteq> []" "title demo_untitled_article = []"
    by (simp_all add: demo_hi_article_def demo_untitled_article_def py_str_def)
  have v: "result_url demo_untitled \<notin> visited_urls ?s" "result_url demo_hi \<notin> visited_urls ?s"
    by (simp_all add: visited_urls_seeded)
  have s: "safe_title (py_str ''a/b:c'') = py_str ''a_b_c''"
    by (simp add: safe_title_def illegal_def py_str_def)
  have r: "deep_crawl_nur demo_env [] [demo_hi] =
     (fst (deep_crawl_nur demo_env [] [demo_hi]), Return [demo_hi_article])"
    by (simp add: demo_run_hi)
  have w: "save_single_txt demo_env demo_hi_article [] =
     (Return (Some (py_str ''Hi.txt'')),
      [(py_str ''Hi.txt'', Text (py_str ''Hi'' @ [10, 10] @ py_str ''body''))])"
    by (simp add: save_single_txt_def txt_body_def Let_def safe_title_def illegal_def py_str_def
        demo_hi_article_def)
  have bl: "step demo_env ?s demo_blank = (fst (stream_loop demo_env ?s [demo_blank]), None)"
    using demo_loop_blank by (simp split: prod.splits option.splits)
  note hi = single_txt_artifact [where data = demo_hi_article and E = demo_env and d = "[]"
        and dir = "[]" and rs = "[demo_hi]" and ds = "[demo_hi_article]" and a = demo_hi_article
        and st' = "fst (deep_crawl_nur demo_env [] [demo_hi])" and r = demo_hi and st = ?s]
  note untitled = single_txt_artifact [where data = demo_untitled_article and E = demo_env
        and d = "[]" and r = demo_untitled and st = ?s]
  note blank = single_txt_artifact [where E = demo_env and r = demo_blank and st = ?s]
  have f: "title demo_hi_article = py_str ''Hi''" "content demo_hi_article = py_str ''body''"
    "safe_title (py_str ''Hi'') = py_str ''Hi''"
    by (simp_all add: demo_hi_article_def safe_title_def illegal_def py_str_def)
  have ok: "write_error demo_env (safe_title (title demo_hi_article) @ py_str ''.txt'')
      (Text (title demo_hi_article @ [10, 10] @ content demo_hi_article)) = None"
    by simp
  note raw = hi [THEN conjunct2, THEN conjunct2, THEN conjunct2, THEN conjunct2, THEN conjunct2,
      THEN conjunct1, rule_format, OF t(1) demo_passes(1) v(2) demo_hi_extracted ok, unfolded f]
  from raw have h: "snd (step demo_env ?s demo_hi) = None"
    "dataset (fst (step demo_env ?s demo_hi)) = [demo_hi_article]"
    "map_of (outdir (fst (step demo_env ?s demo_hi))) (py_str ''Hi.txt'') =
       Some (Text (py_str ''Hi'' @ [10, 10] @ py_str ''body''))"
    "fst ` set (outdir (fst (step demo_env ?s demo_hi))) = {py_str ''Hi.txt''}"
    by (simp_all add: py_str_def)
  from hi r have g: "\<exists>doc arts.
      map_of (outdir (fst (deep_crawl_nur demo_env [] [demo_hi]))) (json_name demo_env) =
        Some (Json doc) \<and>
      py_getitem doc (py_str ''articles'') = Return (JArr arts) \<and>
      article_json demo_hi_article \<in> set arts"
    by simp
  from untitled t(2) v(1) demo_untitled_extracted
  have u: "save_single_txt demo_env demo_untitled_article [] = (Return None, [])"
    "snd (step demo_env ?s demo_untitled) = None"
    "dataset (fst (step demo_env ?s demo_untitled)) = [demo_untitled_article]"
    "outdir (fst (step demo_env ?s demo_untitled)) = []"
    by simp_all
  have b0: "snd (step demo_env ?s demo_blank) = None"
    "dataset (fst (step demo_env ?s demo_blank)) = dataset ?s"
    unfolding bl by (simp_all only: demo_loop_blank fst_conv snd_conv) simp_all
  with blank have b: "outdir (fst (step demo_env ?s demo_blank)) = []"
    by simp
  from b0 have b1: "dataset (fst (step demo_env ?s demo_blank)) = []" by simp
  from t s w v h g u b0(1) b1 b r demo_passes(1) demo_untitled_extracted(1) show ?thesis
    by (intro conjI) assumption+
qed

section \<open>Two runs\<close>

text \<open>
  C6, as stated, fails. The directory \<open>demo_clash\<close> holds an older aggregate file, listing
  the URL of \<open>demo_hi\<close>, under the very name the first run gives its own aggregate file.
  The first run skips \<open>demo_hi\<close> as a duplicate, captures \<open>demo_yo\<close> and overwrites the
  older file. The second run, seeded from the first run's aggregate file and given the
  same results, captures \<open>demo_hi\<close>.
\<close>

theorem second_run_captures_after_overwrite:
  "snd (deep_crawl_nur demo_env demo_clash [demo_hi, demo_yo]) = Return [demo_yo_article] \<and>
   map_of (outdir (fst (deep_crawl_nur demo_env demo_clash [demo_hi, demo_yo]))) (json_name demo_env) =
     Some (Json (dataset_json demo_env [demo_yo_article])) \<and>
   snd (deep_crawl_nur demo_env
      (outdir (fst (deep_crawl_nur demo_env demo_clash [demo_hi, demo_yo]))) [demo_hi, demo_yo]) =
     Return [demo_hi_article] \<and>
   success_count (fst (deep_crawl_nur demo_env
      (outdir (fst (deep_crawl_nur demo_env demo_clash [demo_hi, demo_yo]))) [demo_hi, demo_yo])) = 1"
  by (simp add: demo_run_clash demo_run_clash_again)

text \<open>
  C6, amended. After a run that returned, in the directory it left: whatever the second
  run is given, no URL of a record of the first run reaches the extractor, each being in
  the seeded ledger, and a result with such a URL that passes the filter is counted as a
  duplicate. If moreover the first run's aggregate file did not take the name of
  a file already in the directory, and the second run has the same parser and decoder
  and is given the same results in the same order, or results of the first run in any
  order when no two of those that pass the filter share a URL, then it returns an empty
  run buffer with a success count of zero and writes nothing.
\<close>

theorem second_run_captures_nothing:
  assumes "deep_crawl_nur E1 d rs = (st1, Return ds1)"
  shows "(\<forall>u \<in> url ` set ds1.
            u \<in> visited_urls (seeded E2 (outdir st1)) \<and>
            u \<notin> snd ` set (extract_calls (fst (deep_crawl_nur E2 (outdir st1) rs2)))) \<and>
         (passes_filter q \<longrightarrow> result_url q \<in> url ` set ds1 \<longrightarrow>
          stream_loop E2 (seeded E2 (outdir st1)) xs = (t, None) \<longrightarrow>
            step E2 t q =
              (t\<lparr>result_count := result_count t + 1, skip_count := skip_count t + 1\<rparr>, None)) \<and>
         (json_name E1 \<notin> fst ` set d \<longrightarrow>
          find_title E2 = find_title E1 \<longrightarrow> find_content E2 = find_content E1 \<longrightarrow>
          json_loads E2 = json_loads E1 \<longrightarrow>
          (rs2 = rs \<or>
           (set rs2 \<subseteq> set rs \<and> inj_on result_url {x \<in> set rs. passes_filter x})) \<longrightarrow>
            (\<exists>st2. deep_crawl_nur E2 (outdir st1) rs2 = (st2, Return []) \<and>
               success_count st2 = 0 \<and> outdir st2 = outdir st1))"
proof -
  have listed: "url ` set ds1 \<subseteq> visited_urls (seeded E2 (outdir st1))"
    using assms
  proof (cases rule: deep_crawl_nur_ReturnE)
    case (empty st0)
    then show ?thesis by simp
  next
    case (saved st0)
    then show ?thesis using seeded_contains_aggregate [of ds1 E2 E1 "outdir st0"] by simp
  qed
  have first: "u \<in> visited_urls (seeded E2 (outdir st1)) \<and>
      u \<notin> snd ` set (extract_calls (fst (deep_crawl_nur E2 (outdir st1) rs2)))"
    if "u \<in> url ` set ds1" for u
  proof -
    from that listed have u: "u \<in> visited_urls (seeded E2 (outdir st1))" by blast
    then have "(h, u) \<notin> set (extract_calls (fst (stream_loop E2 (seeded E2 (outdir st1)) rs2)))" for h
      using seeded_calls_not_seeded [of h u E2 "outdir st1" rs2] by blast
    with u show ?thesis
      unfolding extract_calls_deep_crawl_nur by force
  qed
  have skipped: "step E2 t q =
      (t\<lparr>result_count := result_count t + 1, skip_count := skip_count t + 1\<rparr>, None)"
    if q: "passes_filter q" "result_url q \<in> url ` set ds1"
      and t: "stream_loop E2 (seeded E2 (outdir st1)) xs = (t, None)"
  proof -
    from q(2) listed have "result_url q \<in> visited_urls (seeded E2 (outdir st1))" by blast
    with stream_loop_visited_mono [of "seeded E2 (outdir st1)" E2 xs] t
    have "result_url q \<in> visited_urls t" by auto
    with q(1) show ?thesis by (rule step_duplicate)
  qed
  have second: "\<exists>st2. deep_crawl_nur E2 (outdir st1) rs2 = (st2, Return []) \<and>
               success_count st2 = 0 \<and> outdir st2 = outdir st1"
    if fresh: "json_name E1 \<notin> fst ` set d"
      and parser: "find_title E2 = find_title E1" "find_content E2 = find_content E1"
      and decoder: "json_loads E2 = json_loads E1"
      and same_pages: "rs2 = rs \<or> set rs2 \<subseteq> set rs \<and> inj_on result_url {x \<in> set rs. passes_filter x}"
  proof -
    obtain st0 where l: "stream_loop E1 (seeded E1 d) rs = (st0, None)" and ds: "ds1 = dataset st0"
      using assms by (cases rule: deep_crawl_nur_ReturnE) simp_all
    have same: "same_json_files d (outdir st0)"
      using stream_loop_json_files [of "seeded E1 d" E1 rs] l by simp
    have sub: "visited_urls (seeded E1 d) \<subseteq> visited_urls (seeded E2 (outdir st1))"
      using assms
    proof (cases rule: deep_crawl_nur_ReturnE)
      case (empty st0')
      with l have "outdir st1 = outdir st0" by simp
      with seeded_same_json_files [OF decoder same] show ?thesis by simp
    next
      case (saved st0')
      with l have "outdir st1 = AList.update (json_name E1) (Json (dataset_json E1 ds1)) (outdir st0)"
        by simp
      with seeded_keeps_history [OF decoder same fresh, of ds1] show ?thesis by simp
    qed
    let ?t = "seeded E2 (outdir st1)"
    from listed ds have cap: "url ` set (dataset st0) \<subseteq> visited_urls ?t" by simp
    have "snd (stream_loop E2 ?t rs2) = None \<and>
       dataset (fst (stream_loop E2 ?t rs2)) = dataset ?t \<and>
       success_count (fst (stream_loop E2 ?t rs2)) = success_count ?t \<and>
       outdir (fst (stream_loop E2 ?t rs2)) = outdir ?t"
      using same_pages
    proof
      assume "rs2 = rs"
      with second_pass_captures_nothing [OF parser l sub cap] show ?thesis by simp
    next
      assume "set rs2 \<subseteq> set rs \<and> inj_on result_url {x \<in> set rs. passes_filter x}"
      then show ?thesis
        using rearranged_pass_captures_nothing [OF parser l _ cap _ sub, of rs2] by simp
    qed
    then have q: "snd (stream_loop E2 ?t rs2) = None" "dataset (fst (stream_loop E2 ?t rs2)) = []"
      "success_count (fst (stream_loop E2 ?t rs2)) = 0"
      "outdir (fst (stream_loop E2 ?t rs2)) = outdir st1"
      by simp_all
    then have "stream_loop E2 ?t rs2 = (fst (stream_loop E2 ?t rs2), None)"
      by (simp add: prod_eq_iff)
    from deep_crawl_nur_empty [OF this q(2)] q(3,4) show ?thesis by simp
  qed
  from first skipped second show ?thesis by blast
qed

theorem second_run_captures_nothing_witness:
  "deep_crawl_nur demo_env [] [demo_hi, demo_yo] =
     (fst (deep_crawl_nur demo_env [] [demo_hi, demo_yo]), Return [demo_hi_article, demo_yo_article]) \<and>
   json_name demo_env \<notin> fst ` set ([] :: directory) \<and>
   set [demo_yo, demo_hi, demo_yo] \<subseteq> set [demo_hi, demo_yo] \<and>
   inj_on result_url {x \<in> set [demo_hi, demo_yo]. passes_filter x} \<and>
   url demo_hi_article \<in> url ` set [demo_hi_article, demo_yo_article] \<and>
   url demo_hi_article \<in>
     visited_urls (seeded demo_env (outdir (fst (deep_crawl_nur demo_env [] [demo_hi, demo_yo])))) \<and>
   passes_filter demo_hi \<and>
   result_url demo_hi \<in> url ` set [demo_hi_article, demo_yo_article] \<and>
   step demo_env (seeded demo_env (outdir (fst (deep_crawl_nur demo_env [] [demo_hi, demo_yo]))))
       demo_hi =
     ((seeded demo_env (outdir (fst (deep_crawl_nur demo_env [] [demo_hi, demo_yo]))))
        \<lparr>result_count := 1, skip_count := 1\<rparr>, None) \<and>
   (\<exists>st2. deep_crawl_nur demo_env (outdir (fst (deep_crawl_nur demo_env [] [demo_hi, demo_yo])))
        [demo_hi, demo_yo] = (st2, Return []) \<and> success_count st2 = 0 \<and>
        outdir st2 = outdir (fst (deep_crawl_nur demo_env [] [demo_hi, demo_yo]))) \<and>
   (\<exists>st2. deep_crawl_nur demo_env (outdir (fst (deep_crawl_nur demo_env [] [demo_hi, demo_yo])))
        [demo_yo, demo_hi, demo_yo] = (st2, Return []) \<and> success_count st2 = 0 \<and>
        outdir st2 = outdir (fst (deep_crawl_nur demo_env [] [demo_hi, demo_yo])))"
proof -
  let ?rs = "[demo_hi, demo_yo]"
  have r: "deep_crawl_nur demo_env [] ?rs =
     (fst (deep_crawl_nur demo_env [] ?rs), Return [demo_hi_article, demo_yo_article])"
    by (simp only: demo_run_hi_yo fst_conv)
  have u: "url demo_hi_article \<in> url ` set [demo_hi_article, demo_yo_article]"
    by simp
  have s: "set [demo_yo, demo_hi, demo_yo] \<subseteq> set ?rs" by simp
  have fresh: "json_name demo_env \<notin> fst ` set ([] :: directory)" by simp
  let ?t = "seeded demo_env (outdir (fst (deep_crawl_nur demo_env [] ?rs)))"
  have q: "result_url demo_hi \<in> url ` set [demo_hi_article, demo_yo_article]"
    by (simp add: demo_hi_def demo_page_def demo_hi_article_def)
  have t: "stream_loop demo_env ?t [] = (?t, None)" by simp
  note same = second_run_captures_nothing [OF r, where ?E2.0 = demo_env and ?rs2.0 = ?rs
      and q = demo_hi and xs = "[]" and t = ?t]
  from same [THEN conjunct2, THEN conjunct1, rule_format, OF demo_passes(1) q t]
  have d: "step demo_env ?t demo_hi = (?t\<lparr>result_count := 1, skip_count := 1\<rparr>, None)"
    by simp
  note other = second_run_captures_nothing [OF r, where ?E2.0 = demo_env
      and ?rs2.0 = "[demo_yo, demo_hi, demo_yo]"]
  from same have a: "url demo_hi_article \<in>
     visited_urls (seeded demo_env (outdir (fst (deep_crawl_nur demo_env [] ?rs))))"
    using u by blast
  from same [THEN conjunct2, THEN conjunct2, rule_format, OF fresh refl refl refl disjI1 [OF refl]]
  have b: "\<exists>st2. deep_crawl_nur demo_env (outdir (fst (deep_crawl_nur demo_env [] ?rs))) ?rs =
      (st2, Return []) \<and> success_count st2 = 0 \<and>
      outdir st2 = outdir (fst (deep_crawl_nur demo_env [] ?rs))" .
  from other [THEN conjunct2, THEN conjunct2, rule_format, OF fresh refl refl refl
      disjI2 [OF conjI [OF s demo_hi_yo_distinct]]]
  have c: "\<exists>st2. deep_crawl_nur demo_env (outdir (fst (deep_crawl_nur demo_env [] ?rs)))
        [demo_yo, demo_hi, demo_yo] = (st2, Return []) \<and> success_count st2 = 0 \<and>
      outdir st2 = outdir (fst (deep_crawl_nur demo_env [] ?rs))" .
  from r fresh s demo_hi_yo_distinct u a b c d q demo_passes(1) show ?thesis by blast
qed

section \<open>Seeding from historical files\<close>

text \<open>
  C7, as stated, fails. The dataset file of \<open>demo_partial\<close> is malformed, its second
  article has no \<open>url\<close> and reading it raises \<open>KeyError\<close>, yet the file is not skipped: the
  URL of its first article is in the ledger afterwards, that of its third is not.
\<close>

theorem partly_malformed_file_not_skipped:
  "snd (seed_file demo_env
      (map_of demo_partial (py_str ''nur_dataset_20231231_000000.json'')) {}) = Some KeyError \<and>
   py_str ''/news/a.shtml'' \<in> visited_urls (load_existing_urls demo_env (init demo_partial)) \<and>
   py_str ''/news/b.shtml'' \<notin> visited_urls (load_existing_urls demo_env (init demo_partial))"
  by (simp add: demo_partial_seeded)

text \<open>
  C7, amended. \<open>load_existing_urls\<close> always returns, changing nothing but the ledger, to
  which every listed file adds on its own account and from which no file takes anything.
  A file that cannot be read or decoded, or that decodes to anything but an object whose
  \<open>articles\<close> is a list, is skipped: it leaves the ledger as it is. A \<open>.json\<close> file that
  decodes to an object whose \<open>articles\<close> is a list adds the URLs of the articles before the
  first one on which line 78 raises, and is left there. Whatever else is in the
  directory, every URL of a well-formed dataset file (each article an object with a
  string \<open>url\<close>) is in the ledger afterwards.
\<close>

theorem seeding_skips_bad_files:
  "load_existing_urls E st =
     st\<lparr>visited_urls :=
          visited_urls st \<union> (\<Union>n \<in> fst ` set (outdir st). load_file E (outdir st) n {})\<rparr> \<and>
   (\<exists>V. load_existing_urls E st = st\<lparr>visited_urls := V\<rparr> \<and> visited_urls st \<subseteq> V) \<and>
   (json_load E (map_of (outdir st) n) = Raise e \<longrightarrow> load_file E (outdir st) n V = V) \<and>
   V \<subseteq> load_file E (outdir st) n V \<and>
   (json_load E (map_of (outdir st) n) = Return v \<longrightarrow>
    (\<forall>kvs arts. v = JObj kvs \<longrightarrow> map_of kvs (py_str ''articles'') \<noteq> Some (JArr arts)) \<longrightarrow>
      load_file E (outdir st) n V = V) \<and>
   (endswith n (py_str ''.json'') \<longrightarrow>
    json_load E (map_of (outdir st) n) = Return (JObj kvs) \<longrightarrow>
    map_of kvs (py_str ''articles'') = Some (JArr arts) \<longrightarrow>
      load_file E (outdir st) n V =
        V \<union> {u. \<exists>a \<in> set (takeWhile (\<lambda>a. \<not> article_raises a) arts). article_url a = Some u} \<and>
      (snd (seed_file E (map_of (outdir st) n) V) \<noteq> None \<longleftrightarrow>
         (\<exists>a \<in> set arts. article_raises a))) \<and>
   (endswith n (py_str ''.json'') \<longrightarrow>
    json_load E (map_of (outdir st) n) = Return (JObj kvs) \<longrightarrow>
    map_of kvs (py_str ''articles'') = Some (JArr arts) \<longrightarrow>
    list_all (\<lambda>a. article_url a \<noteq> None) arts \<longrightarrow>
      (\<forall>a \<in> set arts. \<forall>u. article_url a = Some u \<longrightarrow> u \<in> visited_urls (load_existing_urls E st)))"
proof -
  have exact: "load_existing_urls E st =
     st\<lparr>visited_urls :=
          visited_urls st \<union> (\<Union>n \<in> fst ` set (outdir st). load_file E (outdir st) n {})\<rparr>"
    by (simp add: load_existing_urls_def fold_load_file)
  have total: "\<exists>V. load_existing_urls E st = st\<lparr>visited_urls := V\<rparr> \<and> visited_urls st \<subseteq> V"
    using exact by (intro exI [of _ "visited_urls (load_existing_urls E st)"]) simp
  have bad: "load_file E (outdir st) n V = V"
    if "json_load E (map_of (outdir st) n) = Raise e"
    using that by (simp add: load_file_def seed_file_def)
  have mono: "V \<subseteq> load_file E (outdir st) n V"
    using load_file_union [of E "outdir st" n V] by blast
  have other: "load_file E (outdir st) n V = V"
    if "json_load E (map_of (outdir st) n) = Return v"
      "\<forall>kvs arts. v = JObj kvs \<longrightarrow> map_of kvs (py_str ''articles'') \<noteq> Some (JArr arts)"
    using load_file_other_shape [OF that(1), of V] that(2) by blast
  have part: "load_file E (outdir st) n V =
        V \<union> {u. \<exists>a \<in> set (takeWhile (\<lambda>a. \<not> article_raises a) arts). article_url a = Some u} \<and>
      (snd (seed_file E (map_of (outdir st) n) V) \<noteq> None \<longleftrightarrow>
         (\<exists>a \<in> set arts. article_raises a))"
    if "endswith n (py_str ''.json'')"
      "json_load E (map_of (outdir st) n) = Return (JObj kvs)"
      "map_of kvs (py_str ''articles'') = Some (JArr arts)"
    using load_file_decoded [OF that, of V] by blast
  have good: "u \<in> visited_urls (load_existing_urls E st)"
    if n: "endswith n (py_str ''.json'')"
      and f: "json_load E (map_of (outdir st) n) = Return (JObj kvs)"
      and k: "map_of kvs (py_str ''articles'') = Some (JArr arts)"
      and w: "list_all (\<lambda>a. article_url a \<noteq> None) arts"
      and a: "a \<in> set arts" "article_url a = Some u" for a u
  proof -
    have "\<forall>a \<in> set arts. \<not> article_raises a"
      using w article_url_raises by (auto simp: list_all_iff)
    then have "takeWhile (\<lambda>a. \<not> article_raises a) arts = arts"
      by (simp add: takeWhile_eq_all_conv)
    with load_file_decoded(1) [OF n f k, of "{}"] a
    have "u \<in> load_file E (outdir st) n {}" by auto
    moreover have "n \<in> fst ` set (outdir st)"
    proof (cases "map_of (outdir st) n")
      case None
      with f show ?thesis by (simp add: json_load_def)
    next
      case (Some c)
      from map_of_SomeD [OF this] show ?thesis by force
    qed
    ultimately show ?thesis
      unfolding visited_urls_load_existing_urls by blast
  qed
  from exact total bad mono other part good show ?thesis by blast
qed

theorem seeding_skips_bad_files_witness:
  "json_load demo_env (map_of demo_history (py_str ''broken.json'')) = Raise OSError \<and>
   load_file demo_env demo_history (py_str ''broken.json'') {} = {} \<and>
   json_load demo_env (map_of demo_partial (py_str ''list.json'')) =
     Return (JArr [JStr (py_str ''articles'')]) \<and>
   load_file demo_env demo_partial (py_str ''list.json'') {} = {} \<and>
   endswith (py_str ''nur_dataset_20231231_000000.json'') (py_str ''.json'') \<and>
   json_load demo_env (map_of demo_partial (py_str ''nur_dataset_20231231_000000.json'')) =
     Return (JObj [(py_str ''articles'',
         JArr [JObj [(py_str ''url'', JStr (py_str ''/news/a.shtml''))],
               JObj [(py_str ''title'', JStr (py_str ''no url''))],
               JObj [(py_str ''url'', JStr (py_str ''/news/b.shtml''))]])]) \<and>
   load_file demo_env demo_partial (py_str ''nur_dataset_20231231_000000.json'') {} =
     {py_str ''/news/a.shtml''} \<and>
   json_load demo_env (map_of demo_history (py_str ''nur_dataset_20231231_000000.json'')) =
     Return (JObj [(py_str ''articles'',
         JArr [JObj [(py_str ''url'', JStr (py_str ''/news/1.shtml''))]])]) \<and>
   article_url (JObj [(py_str ''url'', JStr (py_str ''/news/1.shtml''))]) = Some (py_str ''/news/1.shtml'') \<and>
   py_str ''/news/1.shtml'' \<in> visited_urls (load_existing_urls demo_env (init demo_history)) \<and>
   visited_urls (load_existing_urls demo_env (init demo_history)) = {py_str ''/news/1.shtml''}"
proof -
  let ?n = "py_str ''nur_dataset_20231231_000000.json''"
  let ?a = "JObj [(py_str ''url'', JStr (py_str ''/news/a.shtml''))]"
  let ?t = "JObj [(py_str ''title'', JStr (py_str ''no url''))]"
  let ?b = "JObj [(py_str ''url'', JStr (py_str ''/news/b.shtml''))]"
  let ?one = "JObj [(py_str ''url'', JStr (py_str ''/news/1.shtml''))]"
  have o: "outdir (init demo_history) = demo_history" "outdir (init demo_partial) = demo_partial"
    by (simp_all add: init_def)
  have b: "json_load demo_env (map_of demo_history (py_str ''broken.json'')) = Raise OSError"
    by (simp add: json_load_def demo_history_def)
  have l: "json_load demo_env (map_of demo_partial (py_str ''list.json'')) =
      Return (JArr [JStr (py_str ''articles'')])"
    by (simp add: json_load_def demo_partial_def)
  have n: "endswith ?n (py_str ''.json'')"
    by (simp add: endswith_def suffix_to_prefix py_str_def)
  have p: "json_load demo_env (map_of demo_partial ?n) =
      Return (JObj [(py_str ''articles'', JArr [?a, ?t, ?b])])"
    by (simp add: json_load_def demo_partial_def py_str_def)
  have h: "json_load demo_env (map_of demo_history ?n) =
      Return (JObj [(py_str ''articles'', JArr [?one])])"
    by (simp add: json_load_def demo_history_def py_str_def)
  have k: "map_of [(py_str ''articles'', x)] (py_str ''articles'') = Some x" for x :: json
    by simp
  have r: "\<not> article_raises ?a" "article_raises ?t" "article_url ?a = Some (py_str ''/news/a.shtml'')"
    "article_url ?one = Some (py_str ''/news/1.shtml'')"
    by (simp_all add: article_raises_def)
  note thm_broken = seeding_skips_bad_files [where E = demo_env and st = "init demo_history"
      and n = "py_str ''broken.json''" and e = OSError and V = "{}", unfolded o]
  note thm_list = seeding_skips_bad_files [where E = demo_env and st = "init demo_partial"
      and n = "py_str ''list.json''" and v = "JArr [JStr (py_str ''articles'')]" and V = "{}",
      unfolded o]
  note thm_part = seeding_skips_bad_files [where E = demo_env and st = "init demo_partial"
      and n = ?n and kvs = "[(py_str ''articles'', JArr [?a, ?t, ?b])]" and arts = "[?a, ?t, ?b]"
      and V = "{}", unfolded o]
  note thm_good = seeding_skips_bad_files [where E = demo_env and st = "init demo_history"
      and n = ?n and kvs = "[(py_str ''articles'', JArr [?one])]" and arts = "[?one]"
      and V = "{}", unfolded o]
  from thm_broken b have c1: "load_file demo_env demo_history (py_str ''broken.json'') {} = {}"
    by blast
  from thm_list l have c2: "load_file demo_env demo_partial (py_str ''list.json'') {} = {}"
    by simp
  from thm_part n p k r have c3: "load_file demo_env demo_partial ?n {} = {py_str ''/news/a.shtml''}"
    by auto
  have w: "list_all (\<lambda>a. article_url a \<noteq> None) [?one]"
    by simp
  from thm_good [THEN conjunct2, THEN conjunct2, THEN conjunct2, THEN conjunct2, THEN conjunct2,
      THEN conjunct2, rule_format, OF n h k w, of ?one "py_str ''/news/1.shtml''"] r(4)
  have c4: "py_str ''/news/1.shtml'' \<in> visited_urls (load_existing_urls demo_env (init demo_history))"
    by simp
  from b l n p h r(4) c1 c2 c3 c4 demo_history_seeded show ?thesis
    by (intro conjI) assumption+
qed

section \<open>The ledger and pages without content\<close>

text \<open>
  C8, as stated, fails: the article page \<open>demo_blank\<close>, whose extraction yields no record,
  has its URL in the ledger at the end of the run.
\<close>

theorem fruitless_url_in_ledger:
  "extract_content demo_env (result_html demo_blank) (result_url demo_blank) (now_iso demo_env 1) = None \<and>
   snd (deep_crawl_nur demo_env [] [demo_blank]) = Return [] \<and>
   result_url demo_blank \<in> visited_urls (fst (deep_crawl_nur demo_env [] [demo_blank]))"
  by (simp add: demo_run_blank) (simp add: run_defs)

text \<open>
  C8, amended. A URL handed to the extractor is in the ledger of the run, also when the
  extraction yields no record: \<open>is_duplicate\<close> marks it before the extraction. In that
  case no record of the run buffer has this URL, so a ledger seeded from the aggregate
  file of the run buffer does not contain it.
\<close>

theorem fruitless_url_marked_not_persisted:
  "(h, u) \<in> set (extract_calls (fst (stream_loop E (seeded E d) rs))) \<Longrightarrow>
   extract_content E h u now = None \<Longrightarrow>
   u \<in> visited_urls (fst (stream_loop E (seeded E d) rs)) \<and>
   u \<notin> url ` set (dataset (fst (stream_loop E (seeded E d) rs))) \<and>
   u \<notin> visited_urls (seeded E'
      [(json_name E, Json (dataset_json E (dataset (fst (stream_loop E (seeded E d) rs)))))])"
proof -
  let ?st = "fst (stream_loop E (seeded E d) rs)"
  assume c: "(h, u) \<in> set (extract_calls ?st)" and n: "extract_content E h u now = None"
  have inv: "ledger_inv E ?st" by (rule ledger_inv_loop)
  have v: "u \<in> visited_urls ?st"
    using inv c unfolding ledger_inv_def by force
  have nd: "u \<notin> url ` set (dataset ?st)"
  proof
    assume "u \<in> url ` set (dataset ?st)"
    then obtain a where a: "a \<in> set (dataset ?st)" "url a = u" by auto
    with inv obtain h' where h': "(h', u) \<in> set (extract_calls ?st)"
      "extract_content E h' u (crawl_time a) = Some a"
      unfolding ledger_inv_def by blast
    from inv have "distinct (map snd (extract_calls ?st))"
      by (simp add: ledger_inv_def)
    from distinct_snd_unique [OF this h'(1) c] have "h' = h" .
    with h'(2) extract_content_time [OF n, of "crawl_time a"] show False by simp
  qed
  from v nd show ?thesis
    by (simp add: visited_urls_seeded_single)
qed

theorem fruitless_url_marked_not_persisted_witness:
  "(Some [10], py_str ''/news/2.shtml'') \<in>
      set (extract_calls (fst (stream_loop demo_env (seeded demo_env []) [demo_blank]))) \<and>
   extract_content demo_env (Some [10]) (py_str ''/news/2.shtml'') [] = None \<and>
   py_str ''/news/2.shtml'' \<in> visited_urls (fst (stream_loop demo_env (seeded demo_env []) [demo_blank])) \<and>
   py_str ''/news/2.shtml'' \<notin>
      url ` set (dataset (fst (stream_loop demo_env (seeded demo_env []) [demo_blank])))"
proof -
  have c: "(Some [10], py_str ''/news/2.shtml'') \<in>
      set (extract_calls (fst (stream_loop demo_env (seeded demo_env []) [demo_blank])))"
    by (simp only: demo_loop_blank fst_conv) simp
  have n: "extract_content demo_env (Some [10]) (py_str ''/news/2.shtml'') [] = None"
    by (simp add: extract_content_def extracted_title_def extracted_content_def demo_env_def)
  from fruitless_url_marked_not_persisted [OF c n] c n show ?thesis by blast
qed

section \<open>The end of a run\<close>

text \<open>
  C9, as stated, fails: what \<open>deep_crawl_nur\<close> returns is the run buffer alone. A run over
  no result and a run over one failed fetch return the same value, while the first has
  seen no page and the second has seen one.
\<close>

theorem returned_value_without_counters:
  "snd (deep_crawl_nur demo_env [] []) = snd (deep_crawl_nur demo_env [] [demo_failed]) \<and>
   snd (deep_crawl_nur demo_env [] []) = Return [] \<and>
   snd (deep_crawl_nur demo_env [] [demo_failed]) = Return [] \<and>
   result_count (fst (deep_crawl_nur demo_env [] [])) = 0 \<and>
   result_count (fst (deep_crawl_nur demo_env [] [demo_failed])) = 1"
  by (simp add: demo_run_nothing demo_run_failed)

text \<open>
  C9, amended. A run that returns has printed the three counters (pages seen, which is
  the length of the stream, successful extractions, which is the length of the run
  buffer, and duplicates skipped), and returns the run buffer, also when it is empty.
\<close>

theorem run_prints_counters_returns_buffer:
  "deep_crawl_nur E d rs = (st, Return ds) \<Longrightarrow>
   ds = dataset st \<and>
   Summary (result_count st) (success_count st) (skip_count st) \<in> set (stdout st) \<and>
   result_count st = length rs \<and> success_count st = length ds"
proof (erule deep_crawl_nur_ReturnE)
  fix st0
  assume l: "stream_loop E (seeded E d) rs = (st0, None)" and e: "dataset st0 = []" "ds = []"
    and st: "st = st0\<lparr>stdout := stdout st0 @
         [Summary (result_count st0) (success_count st0) (skip_count st0), NoNewData,
          DatasetSaved None]\<rparr>"
  have "success_count st0 = length (dataset st0)"
    using stream_loop_success_count [of "seeded E d" E rs] l by simp
  with stream_loop_result_count [OF l] e st
  show ?thesis by simp
next
  fix st0
  assume l: "stream_loop E (seeded E d) rs = (st0, None)" and e: "ds = dataset st0"
    and st: "st = st0\<lparr>stdout := stdout st0 @
         [Summary (result_count st0) (success_count st0) (skip_count st0),
          DatasetSaved (Some (output_dir @ py_str ''/'' @ json_name E))],
        outdir := AList.update (json_name E) (Json (dataset_json E (dataset st0))) (outdir st0)\<rparr>"
  have "success_count st0 = length (dataset st0)"
    using stream_loop_success_count [of "seeded E d" E rs] l by simp
  with stream_loop_result_count [OF l] e st
  show ?thesis by simp
qed

theorem run_prints_counters_returns_buffer_witness:
  "deep_crawl_nur demo_env [] [demo_blank] =
     (fst (deep_crawl_nur demo_env [] [demo_blank]), Return []) \<and>
   dataset (fst (deep_crawl_nur demo_env [] [demo_blank])) = [] \<and>
   Summary 1 0 0 \<in> set (stdout (fst (deep_crawl_nur demo_env [] [demo_blank])))"
proof -
  have r: "deep_crawl_nur demo_env [] [demo_blank] =
     (fst (deep_crawl_nur demo_env [] [demo_blank]), Return [])"
    by (simp add: demo_run_blank)
  from run_prints_counters_returns_buffer [OF r] r show ?thesis
    by (simp add: demo_run_blank)
qed

section \<open>Counters and the run buffer\<close>

text \<open>
  C10. The success counter and the run buffer start at zero and empty, every iteration
  adds to the counter what it adds to the length of the buffer, so in every state in
  which the loop is left the counter is the length of the buffer; and in a run that
  returns a non-empty buffer, the number printed as successful extractions is the
  \<open>total_articles\<close> of the aggregate file.
\<close>

theorem success_count_tracks_buffer:
  "success_count (seeded E d) = 0 \<and> dataset (seeded E d) = [] \<and>
   success_count (fst (step E s r)) + length (dataset s) =
     success_count s + length (dataset (fst (step E s r))) \<and>
   success_count (fst (stream_loop E (seeded E d) rs)) =
     length (dataset (fst (stream_loop E (seeded E d) rs))) \<and>
   (deep_crawl_nur E d rs = (st, Return ds) \<longrightarrow> ds \<noteq> [] \<longrightarrow>
      Summary (result_count st) (success_count st) (skip_count st) \<in> set (stdout st) \<and>
      (\<exists>doc. map_of (outdir st) (json_name E) = Some (Json doc) \<and>
         py_getitem doc (py_str ''total_articles'') = Return (JInt (int (success_count st)))))"
proof -
  have step: "success_count (fst (step E s r)) + length (dataset s) =
     success_count s + length (dataset (fst (step E s r)))"
    by (rule step_cases [where E = E and st = s and r = r]) simp_all
  have loop: "success_count (fst (stream_loop E (seeded E d) rs)) =
     length (dataset (fst (stream_loop E (seeded E d) rs)))"
    by (rule stream_loop_success_count) simp
  have run: "Summary (result_count st) (success_count st) (skip_count st) \<in> set (stdout st) \<and>
      (\<exists>doc. map_of (outdir st) (json_name E) = Some (Json doc) \<and>
         py_getitem doc (py_str ''total_articles'') = Return (JInt (int (success_count st))))"
    if r: "deep_crawl_nur E d rs = (st, Return ds)" and ne: "ds \<noteq> []"
    using r
  proof (cases rule: deep_crawl_nur_ReturnE)
    case (empty st0)
    with ne show ?thesis by simp
  next
    case (saved st0)
    have "success_count st0 = length (dataset st0)"
      using loop saved(1) by simp
    with saved show ?thesis
      by (simp add: update_conv' dataset_json_def)
  qed
  show ?thesis using step loop run by simp
qed

theorem success_count_tracks_buffer_witness:
  "deep_crawl_nur demo_env [] [demo_hi] =
     (fst (deep_crawl_nur demo_env [] [demo_hi]), Return [demo_hi_article]) \<and>
   [demo_hi_article] \<noteq> [] \<and>
   Summary 1 1 0 \<in> set (stdout (fst (deep_crawl_nur demo_env [] [demo_hi]))) \<and>
   (\<exists>doc. map_of (outdir (fst (deep_crawl_nur demo_env [] [demo_hi]))) (json_name demo_env) =
        Some (Json doc) \<and>
      py_getitem doc (py_str ''total_articles'') = Return (JInt 1))"
  using success_count_tracks_buffer [of demo_env "[]" _ _ "[demo_hi]"
      "fst (deep_crawl_nur demo_env [] [demo_hi])" "[demo_hi_article]"]
  by (simp add: demo_run_hi)

end
